theory Spec2Isabelle
  imports Complex_Main
begin

section \<open>Numbers, errors and arrays\<close>

text \<open>
  The program computes with numpy's double-precision floats. They are modelled as
  \<^typ>\<open>real\<close>, with \<open>math.pi\<close> as \<^term>\<open>pi\<close>: rounding is not modelled. Where numpy
  would go on with \<open>nan\<close> or \<open>inf\<close> (a division by zero, the logarithm of a number that
  is not positive; numpy only warns there), the model stops with \<open>NonFinite\<close>, which is
  not a Python exception but the mark that the run has left what the reals describe.
  The other errors are the exceptions of the source. \<open>RuntimeError sp e\<close> stands for
  \<open>RuntimeError("Pk accuracy check failed for "+sp+". Max error: "+str(e))\<close>.
\<close>

datatype error =
    AssertionError
  | IndexError
  | KeyError
  | ValueError
  | ZeroDivisionError
  | NonFinite
  | RuntimeError string real

text \<open>
  What \<open>np.loadtxt\<close> read from a file: the rows of numbers, all of one length
  (\<open>loadtxt\<close> reads no other file). numpy squeezes an array of fewer than two rows to
  one dimension, and \<open>a[:,j]\<close> on such an array, or with \<open>j\<close> beyond the columns, raises
  \<open>IndexError\<close>.
\<close>

type_synonym table = "real list list"

definition column :: "table \<Rightarrow> nat \<Rightarrow> error + real list" where
  "column a j =
     (if length a < 2 then Inl IndexError
      else if list_ex (\<lambda>row. length row \<le> j) a then Inl IndexError
      else Inr (map (\<lambda>row. row ! j) a))"

text \<open>Python's \<open>a[i:j]\<close> for indices \<open>0 \<le> i\<close>, \<open>0 \<le> j\<close>.\<close>

definition slice :: "'a list \<Rightarrow> nat \<Rightarrow> nat \<Rightarrow> 'a list" where
  "slice a i j = drop i (take j a)"

text \<open>
  \<open>np.searchsorted(a, v)\<close> (side left): numpy's binary search, which assumes nothing
  about \<open>a\<close>.
\<close>

function binsearch_left :: "real list \<Rightarrow> real \<Rightarrow> nat \<Rightarrow> nat \<Rightarrow> nat" where
  "binsearch_left a key min_idx max_idx =
     (if min_idx < max_idx then
        (if a ! (min_idx + (max_idx - min_idx) div 2) < key
         then binsearch_left a key (min_idx + (max_idx - min_idx) div 2 + 1) max_idx
         else binsearch_left a key min_idx (min_idx + (max_idx - min_idx) div 2))
      else min_idx)"
  by pat_completeness auto
termination
  by (relation "measure (\<lambda>(a, key, min_idx, max_idx). max_idx - min_idx)") auto

declare binsearch_left.simps [simp del]

definition searchsorted :: "real list \<Rightarrow> real \<Rightarrow> nat" where
  "searchsorted a v = binsearch_left a v 0 (length a)"

section \<open>load\_genpk: the measured spectrum, rebinned\<close>

text \<open>\<open>np.sum(count[istart:iend]*vals[istart:iend])\<close>.\<close>

definition bin_sum :: "real list \<Rightarrow> real list \<Rightarrow> nat \<Rightarrow> nat \<Rightarrow> real" where
  "bin_sum count vals istart iend =
     sum_list (map2 (*) (slice count istart iend) (slice vals istart iend))"

text \<open>
  The \<open>while\<close> loop of \<open>load_genpk\<close>, one call for each test of \<open>iend < np.size(kk)\<close>.
  \<open>lcount + count ! iend\<close> is \<open>lcount\<close> after \<open>lcount+=count[iend]\<close>, and \<open>Suc iend\<close> is
  \<open>iend\<close> after \<open>iend+=1\<close>. The two \<open>assert\<close>s are the two \<open>AssertionError\<close> branches.
\<close>

function rebin_loop ::
  "real list \<Rightarrow> real list \<Rightarrow> real list \<Rightarrow> real \<Rightarrow> nat \<Rightarrow> nat \<Rightarrow> real \<Rightarrow>
   real list \<Rightarrow> real list \<Rightarrow> error + (real list \<times> real list)" where
  "rebin_loop kk Pk count minmode istart iend lcount kk_rebin Pk_rebin =
     (if iend < length kk then
        (if lcount + count ! iend \<ge> minmode then
           (if lcount + count ! iend = 0 then Inl NonFinite
            else if \<not> (bin_sum count Pk istart (Suc iend) / (lcount + count ! iend) \<ge> 0)
              then Inl AssertionError
            else if \<not> (bin_sum count kk istart (Suc iend) / (lcount + count ! iend) > 0)
              then Inl AssertionError
            else rebin_loop kk Pk count minmode (Suc iend) (Suc iend) 0
                   (kk_rebin @ [bin_sum count kk istart (Suc iend) / (lcount + count ! iend)])
                   (Pk_rebin @ [bin_sum count Pk istart (Suc iend) / (lcount + count ! iend)]))
         else rebin_loop kk Pk count minmode istart (Suc iend) (lcount + count ! iend)
                kk_rebin Pk_rebin)
      else Inr (kk_rebin, Pk_rebin))"
  by pat_completeness auto
termination
  by (relation "measure (\<lambda>(kk, Pk, count, minmode, istart, iend, rest). length kk - iend)") auto

declare rebin_loop.simps [simp del]

text \<open>
  \<open>kk = matpow[:,0]*scale\<close> and \<open>Pk = matpow[:,1]/scale**3*(2*math.pi)**3\<close>, with
  \<open>scale = 2*math.pi/box\<close>.
\<close>

definition genpk_kk :: "real \<Rightarrow> real list \<Rightarrow> real list" where
  "genpk_kk box c0 = map (\<lambda>k. k * (2 * pi / box)) c0"

definition genpk_Pk :: "real \<Rightarrow> real list \<Rightarrow> real list" where
  "genpk_Pk box c1 = map (\<lambda>p. p / (2 * pi / box) ^ 3 * (2 * pi) ^ 3) c1"

text \<open>
  \<open>load_genpk(infile, box, minmode)\<close>, with the contents of \<open>infile\<close> in place of its
  name. \<open>2*math.pi/box\<close> raises \<open>ZeroDivisionError\<close> for \<open>box = 0\<close>.
\<close>

definition load_genpk :: "table \<Rightarrow> real \<Rightarrow> real \<Rightarrow> error + (real list \<times> real list)" where
  "load_genpk matpow box minmode =
     (if box = 0 then Inl ZeroDivisionError
      else
        (case column matpow 0 of Inl e \<Rightarrow> Inl e | Inr c0 \<Rightarrow>
        (case column matpow 1 of Inl e \<Rightarrow> Inl e | Inr c1 \<Rightarrow>
        (case column matpow 2 of Inl e \<Rightarrow> Inl e | Inr count \<Rightarrow>
           rebin_loop (genpk_kk box c0) (genpk_Pk box c1) count minmode 0 0 0 [] []))))"


text \<open>
  What the rebinning is to achieve, as a predicate on the index ranges \<open>[a, b)\<close> of the
  raw rows that the emitted entries come from: the ranges follow one another from row
  \<open>s\<close> on, none is empty, each has a mode-count sum of at least \<open>m\<close> that no shorter
  range from the same start has, and the rows after the last range never reach \<open>m\<close>.
  \<open>bin_mean\<close> is the count-weighted mean of \<open>vals\<close> over one range.
\<close>

definition bin_mean :: "real list \<Rightarrow> real list \<Rightarrow> nat \<times> nat \<Rightarrow> real" where
  "bin_mean count vals seg =
     bin_sum count vals (fst seg) (snd seg) / sum_list (slice count (fst seg) (snd seg))"

fun binning :: "real list \<Rightarrow> real \<Rightarrow> nat \<Rightarrow> nat \<Rightarrow> (nat \<times> nat) list \<Rightarrow> bool" where
  "binning count m n s [] =
     (s \<le> n \<and> list_all (\<lambda>e. sum_list (slice count s e) < m) [Suc s..<Suc n])"
| "binning count m n s (seg # segs) =
     (fst seg = s \<and> s < snd seg \<and> snd seg \<le> n
      \<and> m \<le> sum_list (slice count s (snd seg))
      \<and> list_all (\<lambda>e. sum_list (slice count s e) < m) [Suc s..<snd seg]
      \<and> binning count m n (snd seg) segs)"

section \<open>CAMBPowerSpectrum: the theory curves\<close>

text \<open>
  An interpolant of \<open>scipy.interpolate.interp1d\<close> is a function that has no value
  (\<open>ValueError\<close>) outside the range it was built on. scipy itself is not part of the
  program: the constructor \<open>interp1d(x, y, kind='cubic')\<close> is a parameter \<open>interp1d\<close> of
  the model, which may fail.
\<close>

type_synonym interpolant = "real \<Rightarrow> real option"

definition interp_call :: "interpolant \<Rightarrow> real list \<Rightarrow> error + real list" where
  "interp_call f xs =
     (if list_ex (\<lambda>x. f x = None) xs then Inl ValueError
      else Inr (map (\<lambda>x. the (f x)) xs))"

text \<open>
  The least \<open>interp1d\<close> there is: a table of the nodes, which takes the given ordinates
  at the given abscissae and has no value anywhere else. It is not scipy's cubic spline;
  it stands in for \<open>interp1d\<close> where a statement about every \<open>interp1d\<close> is applied to
  concrete tables.
\<close>

definition node_interp :: "real list \<Rightarrow> real list \<Rightarrow> error + interpolant" where
  "node_interp xs ys =
     (if distinct xs \<and> length xs = length ys then Inr (map_of (zip xs ys)) else Inl ValueError)"

record camb_power_spectrum =
  dpk :: interpolant
  camb_kk :: "real list"
  dtk :: "string \<rightharpoonup> interpolant"

text \<open>
  \<open>interp.interp1d(logktrans, (tk_camb[lti:hti, c]/tk_camb[lti:hti, 6])**2, kind='cubic')\<close>:
  \<open>transfer_ratio\<close> is the array of ordinates.
\<close>

definition transfer_ratio :: "real list \<Rightarrow> real list \<Rightarrow> real list" where
  "transfer_ratio num den = map2 (\<lambda>t ref. (t / ref) ^ 2) num den"

definition transfer_interp ::
  "(real list \<Rightarrow> real list \<Rightarrow> error + interpolant) \<Rightarrow> table \<Rightarrow> nat \<Rightarrow> nat \<Rightarrow> real list \<Rightarrow> nat
   \<Rightarrow> error + interpolant" where
  "transfer_interp interp1d tk_camb lti hti logktrans c =
     (case column tk_camb c of Inl e \<Rightarrow> Inl e | Inr num \<Rightarrow>
     (case column tk_camb 6 of Inl e \<Rightarrow> Inl e | Inr den \<Rightarrow>
        if 0 \<in> set (slice den lti hti) then Inl NonFinite
        else interp1d logktrans (transfer_ratio (slice num lti hti) (slice den lti hti))))"

text \<open>
  \<open>CAMBPowerSpectrum.__init__\<close>, with the contents of the two files in place of their
  names. The shape errors come first, as in Python, where \<open>np.log10\<close> never raises.
\<close>

definition CAMBPowerSpectrum_init ::
  "(real list \<Rightarrow> real list \<Rightarrow> error + interpolant) \<Rightarrow> table \<Rightarrow> table \<Rightarrow> real \<Rightarrow> real
   \<Rightarrow> error + camb_power_spectrum" where
  "CAMBPowerSpectrum_init interp1d camb_matter camb_transfer kmin kmax =
     (if length camb_matter < 2 then Inl IndexError
      else if length (hd camb_matter) \<noteq> 2 then Inl AssertionError
      else
        (case column camb_matter 0 of Inl e \<Rightarrow> Inl e | Inr m0 \<Rightarrow>
        (case column camb_matter 1 of Inl e \<Rightarrow> Inl e | Inr m1 \<Rightarrow>
           if list_ex (\<lambda>x. x \<le> 0) m0 \<or> list_ex (\<lambda>x. x \<le> 0) m1 \<or> kmin \<le> 0 \<or> kmax \<le> 0
           then Inl NonFinite
           else
             (let lk = map (log 10) m0;
                  lp = map (log 10) m1;
                  lpi = searchsorted lk (log 10 kmin);
                  hpi = searchsorted lk (log 10 kmax)
              in
              (case interp1d (slice lk lpi hpi) (slice lp lpi hpi) of Inl e \<Rightarrow> Inl e | Inr d \<Rightarrow>
              (case column camb_transfer 0 of Inl e \<Rightarrow> Inl e | Inr t0 \<Rightarrow>
                 (let lti = searchsorted t0 kmin;
                      hti = searchsorted t0 kmax
                  in
                  if list_ex (\<lambda>x. x \<le> 0) (slice t0 lti hti) then Inl NonFinite
                  else
                    (let logktrans = map (log 10) (slice t0 lti hti) in
                     (case transfer_interp interp1d camb_transfer lti hti logktrans 1 of
                        Inl e \<Rightarrow> Inl e | Inr dm \<Rightarrow>
                     (case transfer_interp interp1d camb_transfer lti hti logktrans 2 of
                        Inl e \<Rightarrow> Inl e | Inr b \<Rightarrow>
                     (case transfer_interp interp1d camb_transfer lti hti logktrans 5 of
                        Inl e \<Rightarrow> Inl e | Inr nu \<Rightarrow>
                     (case transfer_interp interp1d camb_transfer lti hti logktrans 7 of
                        Inl e \<Rightarrow> Inl e | Inr dmb \<Rightarrow>
                        Inr \<lparr>dpk = d,
                             camb_kk = map (\<lambda>x. 10 powr x) (slice lk lpi hpi),
                             dtk = [''DM'' \<mapsto> dm, ''by'' \<mapsto> b, ''nu'' \<mapsto> nu,
                                    ''DMby'' \<mapsto> dmb]\<rparr>))))))))))))"

text \<open>
  \<open>get_camb_power\<close>. \<open>np.log10(kvals)\<close> does not raise, so an unknown species is a
  \<open>KeyError\<close> whatever \<open>kvals\<close> holds; \<open>tk\<close> is computed before \<open>self.dpk(lgkvals)\<close>.
\<close>

definition get_camb_power ::
  "camb_power_spectrum \<Rightarrow> real list \<Rightarrow> string \<Rightarrow> error + real list" where
  "get_camb_power self kvals species =
     (if species = ''tot'' then
        (if list_ex (\<lambda>k. k \<le> 0) kvals then Inl NonFinite
         else
           (case interp_call (dpk self) (map (log 10) kvals) of Inl e \<Rightarrow> Inl e | Inr lp \<Rightarrow>
              Inr (map (\<lambda>v. 10 powr v) lp)))
      else
        (case dtk self species of None \<Rightarrow> Inl KeyError | Some f \<Rightarrow>
           if list_ex (\<lambda>k. k \<le> 0) kvals then Inl NonFinite
           else
             (case interp_call f (map (log 10) kvals) of Inl e \<Rightarrow> Inl e | Inr tk \<Rightarrow>
             (case interp_call (dpk self) (map (log 10) kvals) of Inl e \<Rightarrow> Inl e | Inr lp \<Rightarrow>
                Inr (map2 (\<lambda>v t. 10 powr v * t) lp tk)))))"

section \<open>check\_ic\_power\_spectra\<close>

text \<open>The attributes of \<open>SimulationICs\<close> that the check reads.\<close>

record simulation_ics =
  box :: real
  npart :: int
  separate_gas :: bool
  separate_nu :: bool

text \<open>
  The species whose theory curve a measurement is compared with: the \<open>if\<close>, \<open>elif\<close>,
  \<open>else\<close> around the three calls of \<open>camb.get_camb_power\<close>.
\<close>

definition theory_species :: "simulation_ics \<Rightarrow> string \<Rightarrow> string" where
  "theory_species self sp =
     (if \<not> separate_gas self \<and> \<not> separate_nu self \<and> sp = ''DM'' then ''tot''
      else if \<not> separate_gas self \<and> separate_nu self \<and> sp = ''DM'' then ''DMby''
      else sp)"

text \<open>
  The comparison window and the tolerance of one species: \<open>imax\<close>, \<open>imin\<close> and the
  \<open>if sp == "nu"\<close> block. The result is \<open>(accuracy, imin, imax)\<close> as they stand after
  the block. \<open>Pk_ic[0]\<close> raises \<open>IndexError\<close> on an empty array; \<open>np.where\<close> gives the
  indices that satisfy the condition, in increasing order.
\<close>

definition comparison_window ::
  "simulation_ics \<Rightarrow> string \<Rightarrow> real \<Rightarrow> real list \<Rightarrow> real list \<Rightarrow> error + (real \<times> nat \<times> nat)" where
  "comparison_window self sp accuracy kk_ic Pk_ic =
     (if box self = 0 then Inl ZeroDivisionError
      else
        (let imax = searchsorted kk_ic (of_int (npart self) * 2 * pi / box self / 4);
             imin = searchsorted kk_ic (2 * pi / box self * 4)
         in
         if sp = ''nu'' then
           (if Pk_ic = [] then Inl IndexError
            else
              (let ii = filter (\<lambda>i. Pk_ic ! i < Pk_ic ! 0 * (1 / 100000)) [0..<length Pk_ic] in
               if length ii > 0 then Inr (accuracy * 4, imin, hd ii)
               else Inr (accuracy * 4, imin, imax)))
         else Inr (accuracy, imin, imax)))"

text \<open>
  The figures. What matplotlib does is not modelled; the indexing of the arguments is:
  \<open>kk_ic[0]\<close>, \<open>kk_ic[-1]\<close>, \<open>kk_ic[imin]\<close>, \<open>kk_ic[imax]\<close> and \<open>Pk_camb[0]\<close> raise
  \<open>IndexError\<close> out of range, and nothing catches it.
\<close>

definition make_figures :: "real list \<Rightarrow> real list \<Rightarrow> nat \<Rightarrow> nat \<Rightarrow> error + unit" where
  "make_figures kk_ic Pk_camb imin imax =
     (if kk_ic = [] then Inl IndexError
      else if length kk_ic \<le> imin then Inl IndexError
      else if length kk_ic \<le> imax then Inl IndexError
      else if Pk_camb = [] then Inl IndexError
      else Inr ())"

text \<open>\<open>error = abs(Pk_ic[imin:imax]/Pk_camb[imin:imax] -1)\<close>.\<close>

definition deviation :: "real list \<Rightarrow> real list \<Rightarrow> nat \<Rightarrow> nat \<Rightarrow> real list" where
  "deviation Pk_ic Pk_camb imin imax =
     map2 (\<lambda>p c. \<bar>p / c - 1\<bar>) (slice Pk_ic imin imax) (slice Pk_camb imin imax)"

text \<open>The last three lines of the loop body.\<close>

definition accuracy_check ::
  "string \<Rightarrow> real \<Rightarrow> real list \<Rightarrow> real list \<Rightarrow> nat \<Rightarrow> nat \<Rightarrow> error + unit" where
  "accuracy_check sp accuracy Pk_ic Pk_camb imin imax =
     (if 0 \<in> set (slice Pk_camb imin imax) then Inl NonFinite
      else if length (filter (\<lambda>e. e > accuracy) (deviation Pk_ic Pk_camb imin imax)) > 3
      then Inl (RuntimeError sp (Max (set (deviation Pk_ic Pk_camb imin imax))))
      else Inr ())"

text \<open>
  One pass of \<open>for sp in ["DM","by", "nu"]\<close>. \<open>fs sp\<close> is the contents of the file
  \<open>gpk_out(sp)\<close> after gen-pk has run, \<open>None\<close> if there is no such file. The result is
  \<open>accuracy\<close> as the pass leaves it for the next one; \<open>continue\<close> leaves it as it was.
\<close>

definition check_species ::
  "simulation_ics \<Rightarrow> camb_power_spectrum \<Rightarrow> (string \<rightharpoonup> table) \<Rightarrow> string \<Rightarrow> real
   \<Rightarrow> error + real" where
  "check_species self camb fs sp accuracy =
     (if (sp = ''DM'' \<or> (separate_gas self \<and> sp = ''by'')) \<and> fs sp = None
      then Inl AssertionError
      else
        (case fs sp of None \<Rightarrow> Inr accuracy | Some go \<Rightarrow>
        (case load_genpk go (box self) 1 of Inl e \<Rightarrow> Inl e | Inr (kk_ic, Pk_ic) \<Rightarrow>
        (case get_camb_power camb kk_ic (theory_species self sp) of
           Inl e \<Rightarrow> Inl e | Inr Pk_camb \<Rightarrow>
        (case comparison_window self sp accuracy kk_ic Pk_ic of
           Inl e \<Rightarrow> Inl e | Inr (accuracy', imin, imax) \<Rightarrow>
        (case make_figures kk_ic Pk_camb imin imax of Inl e \<Rightarrow> Inl e | Inr u \<Rightarrow>
        (case accuracy_check sp accuracy' Pk_ic Pk_camb imin imax of
           Inl e \<Rightarrow> Inl e | Inr u \<Rightarrow> Inr accuracy')))))))"

text \<open>
  The \<open>for\<close> loop over the species still to come: an exception ends it, and
  \<open>accuracy\<close> goes from one pass to the next.
\<close>

fun check_loop ::
  "simulation_ics \<Rightarrow> camb_power_spectrum \<Rightarrow> (string \<rightharpoonup> table) \<Rightarrow> real \<Rightarrow> string list
   \<Rightarrow> error + unit" where
  "check_loop self camb fs accuracy [] = Inr ()"
| "check_loop self camb fs accuracy (sp # sps) =
     (case check_species self camb fs sp accuracy of
        Inl e \<Rightarrow> Inl e
      | Inr accuracy' \<Rightarrow> check_loop self camb fs accuracy' sps)"

text \<open>
  \<open>check_ic_power_spectra\<close>, from the construction of \<open>camb\<close> on: the run of gen-pk
  before it is what produces \<open>fs\<close>. \<open>2*math.pi/self.box/5\<close> raises \<open>ZeroDivisionError\<close>
  for a box of size 0.
\<close>

definition check_ic_power_spectra ::
  "(real list \<Rightarrow> real list \<Rightarrow> error + interpolant) \<Rightarrow> simulation_ics \<Rightarrow> table \<Rightarrow> table
   \<Rightarrow> (string \<rightharpoonup> table) \<Rightarrow> real \<Rightarrow> error + unit" where
  "check_ic_power_spectra interp1d self matterpow transfer fs accuracy =
     (if box self = 0 then Inl ZeroDivisionError
      else
        (case CAMBPowerSpectrum_init interp1d matterpow transfer
                (2 * pi / box self / 5) (of_int (npart self) * 2 * pi / box self * 10) of
           Inl e \<Rightarrow> Inl e
         | Inr camb \<Rightarrow> check_loop self camb fs accuracy [''DM'', ''by'', ''nu'']))"

section \<open>A worked run\<close>

text \<open>
  The data of one run, on which the statements below are tried: a box of size 1 with
  \<open>npart = 40\<close>, so that the comparison window is from \<open>8\<pi>\<close> to \<open>20\<pi>\<close> and the theory
  curves are built on \<open>[2\<pi>/5, 800\<pi>]\<close>; a matter power table and a transfer table with
  the wavenumbers \<open>8\<pi>, 10\<pi>, 12\<pi>, 14\<pi>, 20\<pi>\<close>, power 1 and all transfer functions 1.
  \<open>ex_camb\<close> is what the constructor builds from them over \<open>node_interp\<close> (lemma
  \<open>ex_camb_built\<close>), \<open>ex_nodes\<close> the abscissae of its interpolants. A measured spectrum
  with the raw wavenumbers 4, 5, 6, 7, 10 has exactly these physical wavenumbers.
\<close>

definition ex_matterpow :: table where
  "ex_matterpow = [[8 * pi, 1], [10 * pi, 1], [12 * pi, 1], [14 * pi, 1], [20 * pi, 1]]"

definition ex_transfer :: table where
  "ex_transfer =
     [[8 * pi, 1, 1, 0, 0, 1, 1, 1], [10 * pi, 1, 1, 0, 0, 1, 1, 1],
      [12 * pi, 1, 1, 0, 0, 1, 1, 1], [14 * pi, 1, 1, 0, 0, 1, 1, 1],
      [20 * pi, 1, 1, 0, 0, 1, 1, 1]]"

definition ex_nodes :: "real list" where
  "ex_nodes = [log 10 (8 * pi), log 10 (10 * pi), log 10 (12 * pi), log 10 (14 * pi),
               log 10 (20 * pi)]"

definition ex_camb :: camb_power_spectrum where
  "ex_camb =
     \<lparr>dpk = map_of (zip ex_nodes [0, 0, 0, 0, 0]),
      camb_kk = [8 * pi, 10 * pi, 12 * pi, 14 * pi, 20 * pi],
      dtk = [''DM'' \<mapsto> map_of (zip ex_nodes [1, 1, 1, 1, 1]),
             ''by'' \<mapsto> map_of (zip ex_nodes [1, 1, 1, 1, 1]),
             ''nu'' \<mapsto> map_of (zip ex_nodes [1, 1, 1, 1, 1]),
             ''DMby'' \<mapsto> map_of (zip ex_nodes [1, 1, 1, 1, 1])]\<rparr>"

definition ex_self :: "bool \<Rightarrow> simulation_ics" where
  "ex_self sg = \<lparr>box = 1, npart = 40, separate_gas = sg, separate_nu = False\<rparr>"

section \<open>Properties of load\_genpk\<close>

lemma slice_Suc: "i \<le> j \<Longrightarrow> j < length a \<Longrightarrow> slice a i (Suc j) = slice a i j @ [a ! j]"
  by (simp add: slice_def take_Suc_conv_app_nth)

lemma slice_same [simp]: "slice a i i = []"
  by (simp add: slice_def)

lemma sum_slice_Suc:
  "i \<le> j \<Longrightarrow> j < length (a::real list) \<Longrightarrow> sum_list (slice a i (Suc j)) = sum_list (slice a i j) + a ! j"
  by (simp add: slice_Suc)

lemma rebin_loop_binning:
  assumes "rebin_loop kk Pk count m istart iend lcount ks0 ps0 = Inr (ks, ps)"
    and "length count = length kk"
    and "istart \<le> iend" and "iend \<le> length kk"
    and "lcount = sum_list (slice count istart iend)"
    and "\<forall>e. istart < e \<and> e \<le> iend \<longrightarrow> sum_list (slice count istart e) < m"
  shows "\<exists>segs. binning count m (length kk) istart segs
           \<and> ks = ks0 @ map (bin_mean count kk) segs
           \<and> ps = ps0 @ map (bin_mean count Pk) segs"
  using assms
proof (induction kk Pk count m istart iend lcount ks0 ps0 rule: rebin_loop.induct)
  case (1 kk Pk count m istart iend lcount ks0 ps0)
  note eq = rebin_loop.simps [of kk Pk count m istart iend lcount ks0 ps0]
  show ?case
  proof (cases "iend < length kk")
    case False
    with "1.prems" have e: "iend = length kk" by simp
    from False "1.prems"(1) have "ks = ks0" "ps = ps0" by (simp_all add: eq)
    moreover have "binning count m (length kk) istart []"
      using "1.prems" e by (auto simp: list_all_iff)
    ultimately show ?thesis by (intro exI [of _ "[]"]) simp
  next
    case True
    let ?l = "lcount + count ! iend"
    have l: "?l = sum_list (slice count istart (Suc iend))"
      using "1.prems" True by (simp add: sum_slice_Suc)
    show ?thesis
    proof (cases "m \<le> ?l")
      case emit: True
      let ?k = "bin_sum count kk istart (Suc iend) / ?l"
      let ?p = "bin_sum count Pk istart (Suc iend) / ?l"
      from True emit "1.prems"(1) have nz: "?l \<noteq> 0" and p0: "0 \<le> ?p" and k0: "0 < ?k"
        by (auto simp: eq split: if_splits)
      from True emit nz p0 k0 "1.prems"(1)
      have call: "rebin_loop kk Pk count m (Suc iend) (Suc iend) 0 (ks0 @ [?k]) (ps0 @ [?p]) = Inr (ks, ps)"
        by (simp add: eq)
      have "\<exists>segs. binning count m (length kk) (Suc iend) segs
           \<and> ks = (ks0 @ [?k]) @ map (bin_mean count kk) segs
           \<and> ps = (ps0 @ [?p]) @ map (bin_mean count Pk) segs"
        using True emit nz p0 k0 call "1.prems"(2)
        by (intro "1.IH"(1)) auto
      then obtain segs where segs: "binning count m (length kk) (Suc iend) segs"
        "ks = (ks0 @ [?k]) @ map (bin_mean count kk) segs"
        "ps = (ps0 @ [?p]) @ map (bin_mean count Pk) segs" by blast
      have "binning count m (length kk) istart ((istart, Suc iend) # segs)"
        using segs(1) "1.prems" True emit l by (auto simp: list_all_iff)
      moreover have "bin_mean count kk (istart, Suc iend) = ?k" "bin_mean count Pk (istart, Suc iend) = ?p"
        using l by (simp_all add: bin_mean_def)
      ultimately show ?thesis using segs(2,3)
        by (intro exI [of _ "(istart, Suc iend) # segs"]) simp
    next
      case keep: False
      from True keep "1.prems"(1)
      have call: "rebin_loop kk Pk count m istart (Suc iend) ?l ks0 ps0 = Inr (ks, ps)"
        by (simp add: eq)
      have inv: "\<forall>e. istart < e \<and> e \<le> Suc iend \<longrightarrow> sum_list (slice count istart e) < m"
      proof (intro allI impI)
        fix e assume e: "istart < e \<and> e \<le> Suc iend"
        show "sum_list (slice count istart e) < m"
        proof (cases "e = Suc iend")
          case True
          with keep l show ?thesis by simp
        next
          case False
          with e "1.prems"(6) show ?thesis by simp
        qed
      qed
      show ?thesis
        using True keep call "1.prems"(2,3) l inv
        by (intro "1.IH"(2)) auto
    qed
  qed
qed


lemma binning_length: "binning count m n s segs \<Longrightarrow> s + length segs \<le> n"
  by (induction segs arbitrary: s) fastforce+

lemma wsum_lower:
  "length ws = length xs \<Longrightarrow> \<forall>w\<in>set ws. 0 \<le> w \<Longrightarrow> \<forall>x\<in>set xs. lo \<le> x
   \<Longrightarrow> lo * sum_list ws \<le> sum_list (map2 (*) ws (xs::real list))"
proof (induction ws xs rule: list_induct2)
  case Nil
  then show ?case by simp
next
  case (Cons w ws x xs)
  then have "w * lo \<le> w * x" by (intro mult_left_mono) simp_all
  then have "lo * w \<le> w * x" by (simp add: mult.commute)
  moreover from Cons have "lo * sum_list ws \<le> sum_list (map2 (*) ws xs)" by simp
  ultimately show ?case by (simp add: algebra_simps)
qed

lemma wsum_upper:
  "length ws = length xs \<Longrightarrow> \<forall>w\<in>set ws. 0 \<le> w \<Longrightarrow> \<forall>x\<in>set xs. x \<le> hi
   \<Longrightarrow> sum_list (map2 (*) ws (xs::real list)) \<le> hi * sum_list ws"
proof (induction ws xs rule: list_induct2)
  case Nil
  then show ?case by simp
next
  case (Cons w ws x xs)
  then have "w * x \<le> w * hi" by (intro mult_left_mono) simp_all
  then have "w * x \<le> hi * w" by (simp add: mult.commute)
  moreover from Cons have "sum_list (map2 (*) ws xs) \<le> hi * sum_list ws" by simp
  ultimately show ?case by (simp add: algebra_simps)
qed

lemma slice_set_sorted:
  assumes "sorted (kk::real list)" "a < b" "b \<le> length kk" "x \<in> set (slice kk a b)"
  shows "kk ! a \<le> x \<and> x \<le> kk ! (b - 1)"
proof -
  from assms(4) obtain i where i: "i < length (slice kk a b)" "x = slice kk a b ! i"
    by (auto simp: in_set_conv_nth)
  with assms have ib: "a + i < b" by (simp add: slice_def)
  with i assms have x: "x = kk ! (a + i)" by (simp add: slice_def)
  from ib assms have "kk ! a \<le> kk ! (a + i)" "kk ! (a + i) \<le> kk ! (b - 1)"
    by (auto intro!: sorted_nth_mono)
  with x show ?thesis by simp
qed

lemma bin_mean_bounds:
  assumes "sorted kk" "length count = length kk" "\<forall>c\<in>set count. 0 \<le> c"
    and "a < b" "b \<le> length kk" "0 < sum_list (slice count a b)"
  shows "kk ! a \<le> bin_mean count kk (a, b) \<and> bin_mean count kk (a, b) \<le> kk ! (b - 1)"
proof -
  let ?ws = "slice count a b" and ?xs = "slice kk a b"
  have len: "length ?ws = length ?xs" using assms by (simp add: slice_def)
  have nn: "\<forall>w\<in>set ?ws. 0 \<le> w"
    using assms(3) by (auto simp: slice_def dest!: in_set_dropD in_set_takeD)
  have lo: "\<forall>x\<in>set ?xs. kk ! a \<le> x" and hi: "\<forall>x\<in>set ?xs. x \<le> kk ! (b - 1)"
    using slice_set_sorted [OF assms(1,4,5)] by blast+
  from wsum_lower [OF len nn lo] wsum_upper [OF len nn hi] assms(6)
  show ?thesis
    by (simp add: bin_mean_def bin_sum_def pos_le_divide_eq pos_divide_le_eq)
qed

lemma binning_sorted:
  assumes "sorted kk" "length count = length kk" "\<forall>c\<in>set count. 0 \<le> c" "0 < m"
  shows "binning count m (length kk) s segs
    \<Longrightarrow> sorted (map (bin_mean count kk) segs) \<and> (\<forall>x\<in>set (map (bin_mean count kk) segs). kk ! s \<le> x)"
proof (induction segs arbitrary: s)
  case Nil
  then show ?case by simp
next
  case (Cons seg segs)
  obtain a b where seg: "seg = (a, b)" by (cases seg)
  from Cons.prems seg have ab: "a = s" "s < b" "b \<le> length kk" "m \<le> sum_list (slice count s b)"
    and rest: "binning count m (length kk) b segs" by simp_all
  from ab assms(4) have pos: "0 < sum_list (slice count s b)" by simp
  from bin_mean_bounds [OF assms(1,2,3) ab(2,3) pos]
  have bm: "kk ! s \<le> bin_mean count kk (s, b)" "bin_mean count kk (s, b) \<le> kk ! (b - 1)" by simp_all
  from Cons.IH [OF rest] have srt: "sorted (map (bin_mean count kk) segs)"
    and lb: "\<forall>x\<in>set (map (bin_mean count kk) segs). kk ! b \<le> x" by simp_all
  have up: "\<forall>x\<in>set (map (bin_mean count kk) segs). kk ! (b - 1) \<le> x"
  proof
    fix x assume x: "x \<in> set (map (bin_mean count kk) segs)"
    then have "segs \<noteq> []" by auto
    with rest binning_length [OF rest] have "b < length kk" by (cases segs) auto
    with assms(1) have "kk ! (b - 1) \<le> kk ! b" by (auto intro!: sorted_nth_mono)
    with lb x show "kk ! (b - 1) \<le> x" by fastforce
  qed
  from up bm srt seg ab show ?case by fastforce
qed

lemma rebin_loop_positive:
  assumes "rebin_loop kk Pk count m istart iend lcount ks0 ps0 = Inr (ks, ps)"
    and "\<forall>k\<in>set ks0. 0 < k" and "\<forall>p\<in>set ps0. 0 \<le> p"
  shows "(\<forall>k\<in>set ks. 0 < k) \<and> (\<forall>p\<in>set ps. 0 \<le> p)"
  using assms
proof (induction kk Pk count m istart iend lcount ks0 ps0 rule: rebin_loop.induct)
  case (1 kk Pk count m istart iend lcount ks0 ps0)
  note eq = rebin_loop.simps [of kk Pk count m istart iend lcount ks0 ps0]
  show ?case
  proof (cases "iend < length kk")
    case False
    with "1.prems" show ?thesis by (simp add: eq)
  next
    case True
    let ?l = "lcount + count ! iend"
    show ?thesis
    proof (cases "m \<le> ?l")
      case emit: True
      let ?k = "bin_sum count kk istart (Suc iend) / ?l"
      let ?p = "bin_sum count Pk istart (Suc iend) / ?l"
      from True emit "1.prems"(1) have nz: "?l \<noteq> 0" and p0: "0 \<le> ?p" and k0: "0 < ?k"
        by (auto simp: eq split: if_splits)
      from True emit nz p0 k0 "1.prems"(1)
      have call: "rebin_loop kk Pk count m (Suc iend) (Suc iend) 0 (ks0 @ [?k]) (ps0 @ [?p]) = Inr (ks, ps)"
        by (simp add: eq)
      show ?thesis
        using True emit nz p0 k0 call "1.prems"(2,3)
        by (intro "1.IH"(1)) auto
    next
      case keep: False
      from True keep "1.prems"(1)
      have call: "rebin_loop kk Pk count m istart (Suc iend) ?l ks0 ps0 = Inr (ks, ps)"
        by (simp add: eq)
      show ?thesis
        using True keep call "1.prems"(2,3) by (intro "1.IH"(2)) auto
    qed
  qed
qed



lemma column_length: "column a j = Inr c \<Longrightarrow> length c = length a"
  by (auto simp: column_def split: if_splits)

lemma sorted_scaled: "sorted (xs::real list) \<Longrightarrow> 0 \<le> c \<Longrightarrow> sorted (map (\<lambda>k. k * c) xs)"
  by (induction xs) (auto simp: mult_right_mono)

lemma strict_sorted_scaled:
  "sorted_wrt (<) (xs::real list) \<Longrightarrow> 0 < c \<Longrightarrow> sorted_wrt (<) (map (\<lambda>k. k * c) xs)"
  by (induction xs) auto

lemma binning_strict_sorted:
  assumes "sorted_wrt (<) kk" "length count = length kk" "\<forall>c\<in>set count. 0 \<le> c" "0 < m"
  shows "binning count m (length kk) s segs
    \<Longrightarrow> sorted_wrt (<) (map (bin_mean count kk) segs)
      \<and> (\<forall>x\<in>set (map (bin_mean count kk) segs). kk ! s \<le> x)"
proof (induction segs arbitrary: s)
  case Nil
  then show ?case by simp
next
  case (Cons seg segs)
  note srt = strict_sorted_imp_sorted [OF assms(1)]
  obtain a b where seg: "seg = (a, b)" by (cases seg)
  from Cons.prems seg have ab: "a = s" "s < b" "b \<le> length kk" "m \<le> sum_list (slice count s b)"
    and rest: "binning count m (length kk) b segs" by simp_all
  from ab assms(4) have pos: "0 < sum_list (slice count s b)" by simp
  from bin_mean_bounds [OF srt assms(2,3) ab(2,3) pos]
  have bm: "kk ! s \<le> bin_mean count kk (s, b)" "bin_mean count kk (s, b) \<le> kk ! (b - 1)" by simp_all
  from Cons.IH [OF rest] have strict: "sorted_wrt (<) (map (bin_mean count kk) segs)"
    and lb: "\<forall>x\<in>set (map (bin_mean count kk) segs). kk ! b \<le> x" by simp_all
  have up: "\<forall>x\<in>set (map (bin_mean count kk) segs). kk ! (b - 1) < x"
  proof
    fix x assume x: "x \<in> set (map (bin_mean count kk) segs)"
    then have "segs \<noteq> []" by auto
    with rest binning_length [OF rest] have "b < length kk" by (cases segs) auto
    with assms(1) ab(2) have "kk ! (b - 1) < kk ! b" by (auto intro!: sorted_wrt_nth_less)
    with lb x show "kk ! (b - 1) < x" by fastforce
  qed
  from up bm strict seg ab show ?case by fastforce
qed

lemma load_genpk_Inr:
  assumes "load_genpk matpow b m = Inr r"
  obtains c0 c1 count where "column matpow 0 = Inr c0" "column matpow 1 = Inr c1"
    "column matpow 2 = Inr count"
    "rebin_loop (genpk_kk b c0) (genpk_Pk b c1) count m 0 0 0 [] [] = Inr r"
  using assms by (auto simp: load_genpk_def split: if_splits sum.splits)

text \<open>
  C4. Whenever \<open>load_genpk\<close> returns, for a minimum mode count \<open>m \<ge> 1\<close>, its entries come
  from consecutive, non-empty ranges of raw rows, each with a mode-count sum of at least
  \<open>m\<close>; the emitted wavenumber and power are the count-weighted means over the range; the
  rows after the last range, whose counts never reach \<open>m\<close>, are dropped; there are no
  more entries than raw rows; and for a positive box, raw wavenumbers in increasing order
  and mode counts that are not negative, the emitted wavenumbers are in increasing order
  (strictly so, if the raw ones are).
\<close>

theorem load_genpk_rebin_invariant:
  assumes "load_genpk matpow b m = Inr (kk_rebin, Pk_rebin)" and "1 \<le> m"
  shows "\<exists>c0 c1 count segs.
      column matpow 0 = Inr c0 \<and> column matpow 1 = Inr c1 \<and> column matpow 2 = Inr count
    \<and> binning count m (length matpow) 0 segs
    \<and> kk_rebin = map (bin_mean count (genpk_kk b c0)) segs
    \<and> Pk_rebin = map (bin_mean count (genpk_Pk b c1)) segs
    \<and> length kk_rebin \<le> length matpow
    \<and> length Pk_rebin = length kk_rebin
    \<and> (0 < b \<and> sorted c0 \<and> (\<forall>c\<in>set count. 0 \<le> c) \<longrightarrow> sorted kk_rebin)
    \<and> (0 < b \<and> sorted_wrt (<) c0 \<and> (\<forall>c\<in>set count. 0 \<le> c) \<longrightarrow> sorted_wrt (<) kk_rebin)"
proof -
  from assms(1) obtain c0 c1 count where cols: "column matpow 0 = Inr c0"
      "column matpow 1 = Inr c1" "column matpow 2 = Inr count"
    and run: "rebin_loop (genpk_kk b c0) (genpk_Pk b c1) count m 0 0 0 [] []
                = Inr (kk_rebin, Pk_rebin)"
    by (rule load_genpk_Inr)
  let ?kk = "genpk_kk b c0"
  have len: "length count = length ?kk" "length ?kk = length matpow"
    using cols by (simp_all add: genpk_kk_def column_length)
  from rebin_loop_binning [OF run len(1)]
  obtain segs where segs: "binning count m (length ?kk) 0 segs"
      "kk_rebin = map (bin_mean count ?kk) segs"
      "Pk_rebin = map (bin_mean count (genpk_Pk b c1)) segs"
    by auto
  from binning_length [OF segs(1)] segs(2) len(2)
  have short: "length kk_rebin \<le> length matpow" by simp
  have srt: "sorted kk_rebin" if "0 < b" "sorted c0" "\<forall>c\<in>set count. 0 \<le> c"
  proof -
    from that(1) have "0 \<le> 2 * pi / b" by simp
    with that(2) have "sorted ?kk"
      unfolding genpk_kk_def by (rule sorted_scaled)
    from binning_sorted [OF this len(1) that(3) _ segs(1)] assms(2) segs(2)
    show ?thesis by simp
  qed
  have strict: "sorted_wrt (<) kk_rebin"
    if "0 < b" "sorted_wrt (<) c0" "\<forall>c\<in>set count. 0 \<le> c"
  proof -
    from that(1) have "0 < 2 * pi / b" by simp
    with that(2) have "sorted_wrt (<) ?kk"
      unfolding genpk_kk_def by (rule strict_sorted_scaled)
    from binning_strict_sorted [OF this len(1) that(3) _ segs(1)] assms(2) segs(2)
    show ?thesis by simp
  qed
  from cols segs short srt strict len show ?thesis
    by (intro exI [of _ c0] exI [of _ c1] exI [of _ count] exI [of _ segs]) simp
qed

theorem load_genpk_rebin_invariant_witness:
  "load_genpk [[1,1,1],[2,3,1],[3,5,2],[4,1,1]] 1 2 = Inr ([3 * pi, 6 * pi], [2, 5])
   \<and> binning [1,1,2,1] 2 4 0 [(0, 2), (2, 3)]
   \<and> [3 * pi, 6 * pi] = map (bin_mean [1,1,2,1] (genpk_kk 1 [1,2,3,4])) [(0, 2), (2, 3)]
   \<and> [2, 5] = map (bin_mean [1,1,2,1] (genpk_Pk 1 [1,3,5,1])) [(0, 2), (2, 3)]
   \<and> sorted_wrt (<) [3 * pi, 6 * pi]"
proof -
  let ?t = "[[1,1,1],[2,3,1],[3,5,2],[4,1,1]] :: table"
  have run: "load_genpk ?t 1 2 = Inr ([3 * pi, 6 * pi], [2, 5])"
    by (simp add: load_genpk_def column_def genpk_kk_def genpk_Pk_def rebin_loop.simps
        bin_sum_def slice_def)
  have cols: "column ?t 0 = Inr [1,2,3,4]" "column ?t 1 = Inr [1,3,5,1]"
    "column ?t 2 = Inr [1,1,2,1]"
    by (simp_all add: column_def)
  from load_genpk_rebin_invariant [OF run]
  obtain c0 count where got: "column ?t 0 = Inr c0" "column ?t 2 = Inr count"
    "0 < (1::real) \<and> sorted_wrt (<) c0 \<and> (\<forall>c\<in>set count. 0 \<le> c)
       \<longrightarrow> sorted_wrt (<) [3 * pi, 6 * pi]"
    by auto
  from got(1,2) cols have "c0 = [1,2,3,4]" "count = [1,1,2,1]" by simp_all
  with got(3) have s: "sorted_wrt (<) [3 * pi, 6 * pi]" by simp
  have b: "binning [1,1,2,1] 2 4 0 [(0, 2), (2, 3)]"
    by (simp add: slice_def upt_rec)
  have k: "[3 * pi, 6 * pi] = map (bin_mean [1,1,2,1] (genpk_kk 1 [1,2,3,4])) [(0, 2), (2, 3)]"
    by (simp add: bin_mean_def bin_sum_def genpk_kk_def slice_def)
  have p: "[2, 5] = map (bin_mean [1,1,2,1] (genpk_Pk 1 [1,3,5,1])) [(0, 2), (2, 3)]"
    by (simp add: bin_mean_def bin_sum_def genpk_Pk_def slice_def)
  from run b k p s show ?thesis by simp
qed

text \<open>
  C5, as the code has it. The assertions are \<open>p >= 0\<close> and \<open>k > 0\<close>: every wavenumber
  that \<open>load_genpk\<close> returns is positive and every power is not negative, so a bin with a
  negative power or a wavenumber that is not positive makes the call fail.
\<close>

theorem load_genpk_asserted_signs:
  assumes "load_genpk matpow b m = Inr (kk_rebin, Pk_rebin)"
  shows "(\<forall>k\<in>set kk_rebin. 0 < k) \<and> (\<forall>p\<in>set Pk_rebin. 0 \<le> p)"
proof -
  from assms obtain c0 c1 count where
    "rebin_loop (genpk_kk b c0) (genpk_Pk b c1) count m 0 0 0 [] [] = Inr (kk_rebin, Pk_rebin)"
    by (rule load_genpk_Inr)
  from rebin_loop_positive [OF this] show ?thesis by simp
qed

theorem load_genpk_asserted_signs_witness:
  "load_genpk [[1,1,1],[2,3,1],[3,5,2],[4,1,1]] 1 2 = Inr ([3 * pi, 6 * pi], [2, 5])
   \<and> list_all (\<lambda>k. 0 < k) [3 * pi, 6 * pi] \<and> list_all (\<lambda>p. 0 \<le> p) [2, 5 :: real]
   \<and> load_genpk [[1,-1,1],[2,3,1]] 1 1 = Inl AssertionError
   \<and> load_genpk [[0,1,1],[2,3,1]] 1 1 = Inl AssertionError"
proof -
  have run: "load_genpk [[1,1,1],[2,3,1],[3,5,2],[4,1,1]] 1 2 = Inr ([3 * pi, 6 * pi], [2, 5])"
    by (simp add: load_genpk_def column_def genpk_kk_def genpk_Pk_def rebin_loop.simps
        bin_sum_def slice_def)
  have neg: "load_genpk [[1,-1,1],[2,3,1]] 1 1 = Inl AssertionError"
    by (simp add: load_genpk_def column_def genpk_kk_def genpk_Pk_def rebin_loop.simps
        bin_sum_def slice_def)
  have zero: "load_genpk [[0,1,1],[2,3,1]] 1 1 = Inl AssertionError"
    by (simp add: load_genpk_def column_def genpk_kk_def genpk_Pk_def rebin_loop.simps
        bin_sum_def slice_def)
  from load_genpk_asserted_signs [OF run]
  have "list_all (\<lambda>k. 0 < k) [3 * pi, 6 * pi] \<and> list_all (\<lambda>p. 0 \<le> p) [2, 5 :: real]"
    unfolding list_all_iff by blast
  with run neg zero show ?thesis by (intro conjI) simp_all
qed

text \<open>
  A bin of power 0 passes \<open>assert p >= 0\<close> and is returned: the powers that
  \<open>load_genpk\<close> returns are not all strictly positive.
\<close>

theorem load_genpk_returns_zero_power:
  "load_genpk [[1,0,1],[2,0,1]] (2 * pi) 1 = Inr ([1, 2], [0, 0])"
  by (simp add: load_genpk_def column_def genpk_kk_def genpk_Pk_def rebin_loop.simps
      bin_sum_def slice_def)

lemma wsum_scaled:
  "sum_list (map2 (*) ws (map (\<lambda>p. p * c) xs)) = sum_list (map2 (*) ws xs) * (c::real)"
proof (induction ws arbitrary: xs)
  case Nil
  then show ?case by simp
next
  case (Cons w ws)
  then show ?case by (cases xs) (simp_all add: algebra_simps)
qed

lemma bin_mean_scaled:
  "bin_mean count (map (\<lambda>p. p * c) vals) seg = bin_mean count vals seg * c"
  by (simp add: bin_mean_def bin_sum_def slice_def take_map drop_map wsum_scaled)

text \<open>
  C6, as the code has it. For a box of size \<open>2\<pi>\<close> the scale is 1: the wavenumbers
  returned are the count-weighted means of the raw wavenumbers, and the powers returned
  are the count-weighted means of the raw powers times \<open>(2\<pi>)\<^sup>3\<close>, the factor that the
  conversion keeps.
\<close>

theorem load_genpk_box_2pi:
  assumes "load_genpk matpow (2 * pi) m = Inr (kk_rebin, Pk_rebin)"
  shows "\<exists>c0 c1 count segs.
      column matpow 0 = Inr c0 \<and> column matpow 1 = Inr c1 \<and> column matpow 2 = Inr count
    \<and> genpk_kk (2 * pi) c0 = c0
    \<and> genpk_Pk (2 * pi) c1 = map (\<lambda>p. p * (2 * pi) ^ 3) c1
    \<and> binning count m (length matpow) 0 segs
    \<and> kk_rebin = map (bin_mean count c0) segs
    \<and> Pk_rebin = map (\<lambda>seg. bin_mean count c1 seg * (2 * pi) ^ 3) segs"
proof -
  from assms obtain c0 c1 count where cols: "column matpow 0 = Inr c0"
      "column matpow 1 = Inr c1" "column matpow 2 = Inr count"
    and run: "rebin_loop (genpk_kk (2 * pi) c0) (genpk_Pk (2 * pi) c1) count m 0 0 0 [] []
                = Inr (kk_rebin, Pk_rebin)"
    by (rule load_genpk_Inr)
  have k: "genpk_kk (2 * pi) c0 = c0"
    by (simp add: genpk_kk_def)
  have p: "genpk_Pk (2 * pi) c1 = map (\<lambda>p. p * (2 * pi) ^ 3) c1"
    by (simp add: genpk_Pk_def)
  have len: "length count = length c0" "length c0 = length matpow"
    using cols by (simp_all add: column_length)
  from rebin_loop_binning [OF run [unfolded k p] len(1)]
  obtain segs where segs: "binning count m (length c0) 0 segs"
      "kk_rebin = map (bin_mean count c0) segs"
      "Pk_rebin = map (bin_mean count (map (\<lambda>p. p * (2 * pi) ^ 3) c1)) segs"
    by auto
  from segs(3) have "Pk_rebin = map (\<lambda>seg. bin_mean count c1 seg * (2 * pi) ^ 3) segs"
    by (simp add: bin_mean_scaled)
  with cols k p segs(1,2) len(2) show ?thesis by auto
qed

theorem load_genpk_box_2pi_witness:
  "load_genpk [[1,1,1],[2,3,1],[3,5,2],[4,1,1]] (2 * pi) 2
     = Inr ([3 / 2, 3], [2 * (2 * pi) ^ 3, 5 * (2 * pi) ^ 3])
   \<and> (\<exists>c0 c1 count segs.
        column [[1,1,1],[2,3,1],[3,5,2],[4,1,1]] 0 = Inr c0
      \<and> column [[1,1,1],[2,3,1],[3,5,2],[4,1,1]] 1 = Inr c1
      \<and> column [[1,1,1],[2,3,1],[3,5,2],[4,1,1]] 2 = Inr count
      \<and> genpk_kk (2 * pi) c0 = c0
      \<and> genpk_Pk (2 * pi) c1 = map (\<lambda>p. p * (2 * pi) ^ 3) c1
      \<and> binning count 2 (length [[1,1,1],[2,3,1],[3,5,2],[4,1,1 :: real]]) 0 segs
      \<and> [3 / 2, 3] = map (bin_mean count c0) segs
      \<and> [2 * (2 * pi) ^ 3, 5 * (2 * pi) ^ 3]
           = map (\<lambda>seg. bin_mean count c1 seg * (2 * pi) ^ 3) segs)
   \<and> [3 / 2, 3] = map (bin_mean [1,1,2,1] [1,2,3,4]) [(0, 2), (2, 3)]
   \<and> [2 * (2 * pi) ^ 3, 5 * (2 * pi) ^ 3]
        = map (\<lambda>seg. bin_mean [1,1,2,1] [1,3,5,1] seg * (2 * pi) ^ 3) [(0, 2), (2, 3)]"
proof -
  have run: "load_genpk [[1,1,1],[2,3,1],[3,5,2],[4,1,1]] (2 * pi) 2
     = Inr ([3 / 2, 3], [2 * (2 * pi) ^ 3, 5 * (2 * pi) ^ 3])"
    by (simp add: load_genpk_def column_def genpk_kk_def genpk_Pk_def rebin_loop.simps
        bin_sum_def slice_def)
  have k: "[3 / 2, 3] = map (bin_mean [1,1,2,1] [1,2,3,4]) [(0, 2), (2, 3)]"
    by (simp add: bin_mean_def bin_sum_def slice_def)
  have p: "[2 * (2 * pi) ^ 3, 5 * (2 * pi) ^ 3]
        = map (\<lambda>seg. bin_mean [1,1,2,1] [1,3,5,1] seg * (2 * pi) ^ 3) [(0, 2), (2, 3)]"
    by (simp add: bin_mean_def bin_sum_def slice_def)
  show ?thesis
    by (intro conjI) (rule run load_genpk_box_2pi [OF run] k p)+
qed

text \<open>
  With a box of size \<open>2\<pi>\<close>, mode counts of 1 and a minimum of 1 nothing is aggregated,
  and still the powers returned are not the raw ones.
\<close>

theorem load_genpk_box_2pi_power_scaled:
  "load_genpk [[1,1,1],[2,1,1]] (2 * pi) 1 = Inr ([1, 2], [(2 * pi) ^ 3, (2 * pi) ^ 3])
   \<and> (2 * pi) ^ 3 \<noteq> (1 :: real)"
proof -
  have "1 < 2 * pi" using pi_ge_two by simp
  then have "1 < (2 * pi) ^ 3" by (rule one_less_power) simp
  then show ?thesis
    by (simp add: load_genpk_def column_def genpk_kk_def genpk_Pk_def rebin_loop.simps
        bin_sum_def slice_def)
qed

section \<open>Properties of CAMBPowerSpectrum\<close>

lemma transfer_interp_Inr:
  assumes "transfer_interp interp1d tk lti hti logktrans c = Inr f"
  obtains num den where "column tk c = Inr num" "column tk 6 = Inr den"
    "0 \<notin> set (slice den lti hti)"
    "interp1d logktrans (transfer_ratio (slice num lti hti) (slice den lti hti)) = Inr f"
  using assms by (auto simp: transfer_interp_def split: sum.splits if_splits)

lemma CAMBPowerSpectrum_init_Inr:
  assumes "CAMBPowerSpectrum_init interp1d camb_matter camb_transfer kmin kmax = Inr camb"
  obtains m0 m1 d t0 dm b nu dmb where
    "column camb_matter 0 = Inr m0" "column camb_matter 1 = Inr m1"
    "interp1d (slice (map (log 10) m0) (searchsorted (map (log 10) m0) (log 10 kmin))
                 (searchsorted (map (log 10) m0) (log 10 kmax)))
              (slice (map (log 10) m1) (searchsorted (map (log 10) m0) (log 10 kmin))
                 (searchsorted (map (log 10) m0) (log 10 kmax))) = Inr d"
    "column camb_transfer 0 = Inr t0"
    "\<not> list_ex (\<lambda>x. x \<le> 0) (slice t0 (searchsorted t0 kmin) (searchsorted t0 kmax))"
    "transfer_interp interp1d camb_transfer (searchsorted t0 kmin) (searchsorted t0 kmax)
       (map (log 10) (slice t0 (searchsorted t0 kmin) (searchsorted t0 kmax))) 1 = Inr dm"
    "transfer_interp interp1d camb_transfer (searchsorted t0 kmin) (searchsorted t0 kmax)
       (map (log 10) (slice t0 (searchsorted t0 kmin) (searchsorted t0 kmax))) 2 = Inr b"
    "transfer_interp interp1d camb_transfer (searchsorted t0 kmin) (searchsorted t0 kmax)
       (map (log 10) (slice t0 (searchsorted t0 kmin) (searchsorted t0 kmax))) 5 = Inr nu"
    "transfer_interp interp1d camb_transfer (searchsorted t0 kmin) (searchsorted t0 kmax)
       (map (log 10) (slice t0 (searchsorted t0 kmin) (searchsorted t0 kmax))) 7 = Inr dmb"
    "dpk camb = d"
    "dtk camb = [''DM'' \<mapsto> dm, ''by'' \<mapsto> b, ''nu'' \<mapsto> nu, ''DMby'' \<mapsto> dmb]"
proof -
  from assms have "\<exists>m0 m1 d t0 dm b nu dmb.
    column camb_matter 0 = Inr m0 \<and> column camb_matter 1 = Inr m1 \<and>
    interp1d (slice (map (log 10) m0) (searchsorted (map (log 10) m0) (log 10 kmin))
                 (searchsorted (map (log 10) m0) (log 10 kmax)))
              (slice (map (log 10) m1) (searchsorted (map (log 10) m0) (log 10 kmin))
                 (searchsorted (map (log 10) m0) (log 10 kmax))) = Inr d \<and>
    column camb_transfer 0 = Inr t0 \<and>
    \<not> list_ex (\<lambda>x. x \<le> 0) (slice t0 (searchsorted t0 kmin) (searchsorted t0 kmax)) \<and>
    transfer_interp interp1d camb_transfer (searchsorted t0 kmin) (searchsorted t0 kmax)
       (map (log 10) (slice t0 (searchsorted t0 kmin) (searchsorted t0 kmax))) 1 = Inr dm \<and>
    transfer_interp interp1d camb_transfer (searchsorted t0 kmin) (searchsorted t0 kmax)
       (map (log 10) (slice t0 (searchsorted t0 kmin) (searchsorted t0 kmax))) 2 = Inr b \<and>
    transfer_interp interp1d camb_transfer (searchsorted t0 kmin) (searchsorted t0 kmax)
       (map (log 10) (slice t0 (searchsorted t0 kmin) (searchsorted t0 kmax))) 5 = Inr nu \<and>
    transfer_interp interp1d camb_transfer (searchsorted t0 kmin) (searchsorted t0 kmax)
       (map (log 10) (slice t0 (searchsorted t0 kmin) (searchsorted t0 kmax))) 7 = Inr dmb \<and>
    dpk camb = d \<and>
    dtk camb = [''DM'' \<mapsto> dm, ''by'' \<mapsto> b, ''nu'' \<mapsto> nu, ''DMby'' \<mapsto> dmb]"
    unfolding CAMBPowerSpectrum_init_def Let_def
    by (simp split: if_splits sum.splits) fastforce
  then show ?thesis using that by blast
qed

lemma camb_dtk_dom:
  assumes "CAMBPowerSpectrum_init interp1d camb_matter camb_transfer kmin kmax = Inr camb"
  shows "dom (dtk camb) = {''DM'', ''by'', ''nu'', ''DMby''}"
proof -
  from assms obtain dm b nu dmb where
    "dtk camb = [''DM'' \<mapsto> dm, ''by'' \<mapsto> b, ''nu'' \<mapsto> nu, ''DMby'' \<mapsto> dmb]"
    by (rule CAMBPowerSpectrum_init_Inr)
  then show ?thesis by auto
qed

lemma get_camb_power_KeyError:
  "get_camb_power camb kvals species = Inl KeyError
     \<longleftrightarrow> species \<noteq> ''tot'' \<and> species \<notin> dom (dtk camb)"
  by (auto simp: get_camb_power_def interp_call_def split: option.splits sum.splits if_splits)

lemma slice_nth: "i \<le> j \<Longrightarrow> j < k \<Longrightarrow> j < length a \<Longrightarrow> slice a i k ! (j - i) = a ! j"
  by (simp add: slice_def)

lemma slice_length: "length (slice a i k) = min k (length a) - i"
  by (simp add: slice_def)

lemma get_camb_power_value:
  assumes "get_camb_power camb kvals species = Inr r" and "species \<noteq> ''tot''"
    and "dtk camb species = Some f"
  shows "r = map (\<lambda>k. 10 powr the (dpk camb (log 10 k)) * the (f (log 10 k))) kvals"
  using assms
  by (auto simp: get_camb_power_def interp_call_def map2_map_map
      split: sum.splits if_splits intro!: nth_equalityI)

lemma get_camb_power_node:
  assumes "species \<noteq> ''tot''" and "dtk camb species = Some f"
    and "0 < k" and "f (log 10 k) = Some y" and "dpk camb (log 10 k) \<noteq> None"
  shows "get_camb_power camb [k] species = Inr [10 powr the (dpk camb (log 10 k)) * y]"
  using assms by (auto simp: get_camb_power_def interp_call_def)

text \<open>
  C8, as the code has it. For each of DM, by, nu and DMby the constructor hands
  \<open>interp1d\<close> the abscissae \<open>log10 k\<close> and, as ordinates, the squared ratios
  \<open>(T_species/T_ref)\<^sup>2\<close> themselves, with the transfer columns 1, 2, 5 and 7 over column
  6. A query for the species returns \<open>10^dpk(log10 k)\<close> times that interpolant at
  \<open>log10 k\<close>. Hence, for an \<open>interp1d\<close> whose interpolants take the given ordinates at the
  given abscissae, the power at a tabulated wavenumber is
  \<open>P_tot(k) \<sqdot> (T_species(k)/T_ref(k))\<^sup>2\<close>.
\<close>

theorem camb_species_power:
  assumes init: "CAMBPowerSpectrum_init interp1d camb_matter camb_transfer kmin kmax = Inr camb"
    and sp: "(species, c) \<in> {(''DM'', 1), (''by'', 2), (''nu'', 5), (''DMby'', 7)}"
    and t0: "column camb_transfer 0 = Inr t0"
    and lti: "lti = searchsorted t0 kmin" and hti: "hti = searchsorted t0 kmax"
  shows "\<exists>num den f.
      column camb_transfer c = Inr num \<and> column camb_transfer 6 = Inr den
    \<and> dtk camb species = Some f
    \<and> interp1d (map (log 10) (slice t0 lti hti))
        (transfer_ratio (slice num lti hti) (slice den lti hti)) = Inr f
    \<and> (\<forall>kvals r. get_camb_power camb kvals species = Inr r \<longrightarrow>
          r = map (\<lambda>k. 10 powr the (dpk camb (log 10 k)) * the (f (log 10 k))) kvals)
    \<and> ((\<forall>xs ys g. interp1d xs ys = Inr g \<longrightarrow>
            length xs = length ys \<and> (\<forall>j<length xs. g (xs ! j) = Some (ys ! j)))
        \<longrightarrow> (\<forall>i. lti \<le> i \<and> i < hti \<and> i < length t0 \<and> dpk camb (log 10 (t0 ! i)) \<noteq> None \<longrightarrow>
              get_camb_power camb [t0 ! i] species
                = Inr [10 powr the (dpk camb (log 10 (t0 ! i))) * (num ! i / den ! i) ^ 2]))"
proof -
  from init obtain t0' dm b nu dmb where
      t0': "column camb_transfer 0 = Inr t0'"
    and pos': "\<not> list_ex (\<lambda>x. x \<le> 0) (slice t0' (searchsorted t0' kmin) (searchsorted t0' kmax))"
    and ti: "transfer_interp interp1d camb_transfer (searchsorted t0' kmin) (searchsorted t0' kmax)
       (map (log 10) (slice t0' (searchsorted t0' kmin) (searchsorted t0' kmax))) 1 = Inr dm"
      "transfer_interp interp1d camb_transfer (searchsorted t0' kmin) (searchsorted t0' kmax)
       (map (log 10) (slice t0' (searchsorted t0' kmin) (searchsorted t0' kmax))) 2 = Inr b"
      "transfer_interp interp1d camb_transfer (searchsorted t0' kmin) (searchsorted t0' kmax)
       (map (log 10) (slice t0' (searchsorted t0' kmin) (searchsorted t0' kmax))) 5 = Inr nu"
      "transfer_interp interp1d camb_transfer (searchsorted t0' kmin) (searchsorted t0' kmax)
       (map (log 10) (slice t0' (searchsorted t0' kmin) (searchsorted t0' kmax))) 7 = Inr dmb"
    and d: "dtk camb = [''DM'' \<mapsto> dm, ''by'' \<mapsto> b, ''nu'' \<mapsto> nu, ''DMby'' \<mapsto> dmb]"
    by (rule CAMBPowerSpectrum_init_Inr)
  from t0 t0' have [simp]: "t0' = t0" by simp
  let ?lk = "map (log 10) (slice t0 lti hti)"
  from sp consider "species = ''DM'' \<and> c = 1" | "species = ''by'' \<and> c = 2"
    | "species = ''nu'' \<and> c = 5" | "species = ''DMby'' \<and> c = 7" by auto
  then obtain f where f: "dtk camb species = Some f"
    "transfer_interp interp1d camb_transfer lti hti ?lk c = Inr f"
  proof cases
    case 1 with ti(1) d lti hti that [of dm] show ?thesis by simp
  next
    case 2 with ti(2) d lti hti that [of b] show ?thesis by simp
  next
    case 3 with ti(3) d lti hti that [of nu] show ?thesis by simp
  next
    case 4 with ti(4) d lti hti that [of dmb] show ?thesis by simp
  qed
  from f(2) obtain num den where nd: "column camb_transfer c = Inr num"
    "column camb_transfer 6 = Inr den"
    "interp1d ?lk (transfer_ratio (slice num lti hti) (slice den lti hti)) = Inr f"
    by (rule transfer_interp_Inr)
  from sp have nt: "species \<noteq> ''tot''" by auto
  have q: "\<forall>kvals r. get_camb_power camb kvals species = Inr r \<longrightarrow>
          r = map (\<lambda>k. 10 powr the (dpk camb (log 10 k)) * the (f (log 10 k))) kvals"
    using get_camb_power_value [OF _ nt f(1)] by blast
  have node: "get_camb_power camb [t0 ! i] species
                = Inr [10 powr the (dpk camb (log 10 (t0 ! i))) * (num ! i / den ! i) ^ 2]"
    if exact: "\<forall>xs ys g. interp1d xs ys = Inr g \<longrightarrow>
            length xs = length ys \<and> (\<forall>j<length xs. g (xs ! j) = Some (ys ! j))"
      and i: "lti \<le> i" "i < hti" "i < length t0" "dpk camb (log 10 (t0 ! i)) \<noteq> None"
    for i
  proof -
    have len: "length num = length t0" "length den = length t0"
      using nd(1,2) t0 by (simp_all add: column_length)
    let ?ys = "transfer_ratio (slice num lti hti) (slice den lti hti)"
    from i have j: "i - lti < length ?lk" by (simp add: slice_length)
    from exact nd(3) j have "f (?lk ! (i - lti)) = Some (?ys ! (i - lti))" by blast
    moreover from i j have "?lk ! (i - lti) = log 10 (t0 ! i)"
      by (simp add: slice_nth slice_length)
    moreover from i len have "?ys ! (i - lti) = (num ! i / den ! i) ^ 2"
      by (simp add: transfer_ratio_def slice_nth slice_length)
    ultimately have fy: "f (log 10 (t0 ! i)) = Some ((num ! i / den ! i) ^ 2)" by simp
    from j have "slice t0 lti hti ! (i - lti) \<in> set (slice t0 lti hti)" by simp
    with i have "t0 ! i \<in> set (slice t0 lti hti)" by (simp add: slice_nth)
    with pos' lti hti have "0 < t0 ! i" by (auto simp: list_ex_iff)
    from get_camb_power_node [OF nt f(1) this fy i(4)] show ?thesis .
  qed
  show ?thesis
  proof (intro exI conjI)
    show "column camb_transfer c = Inr num" "column camb_transfer 6 = Inr den"
      "dtk camb species = Some f" by (fact nd(1) nd(2) f(1))+
    show "interp1d ?lk (transfer_ratio (slice num lti hti) (slice den lti hti)) = Inr f"
      by (fact nd(3))
    show "\<forall>kvals r. get_camb_power camb kvals species = Inr r \<longrightarrow>
          r = map (\<lambda>k. 10 powr the (dpk camb (log 10 k)) * the (f (log 10 k))) kvals"
      by (fact q)
    show "(\<forall>xs ys g. interp1d xs ys = Inr g \<longrightarrow>
            length xs = length ys \<and> (\<forall>j<length xs. g (xs ! j) = Some (ys ! j)))
        \<longrightarrow> (\<forall>i. lti \<le> i \<and> i < hti \<and> i < length t0 \<and> dpk camb (log 10 (t0 ! i)) \<noteq> None \<longrightarrow>
              get_camb_power camb [t0 ! i] species
                = Inr [10 powr the (dpk camb (log 10 (t0 ! i))) * (num ! i / den ! i) ^ 2])"
      using node by blast
  qed
qed

lemma node_interp_exact:
  "node_interp xs ys = Inr g \<Longrightarrow> length xs = length ys \<and> (\<forall>j<length xs. g (xs ! j) = Some (ys ! j))"
  by (auto simp: node_interp_def map_of_zip_nth split: if_splits)

lemma camb_example:
  "CAMBPowerSpectrum_init node_interp [[1, 1], [10, 10]]
     [[1, 10, 2, 0, 0, 3, 1, 5], [10, 10, 2, 0, 0, 3, 1, 5]] 1 100
   = Inr \<lparr>dpk = map_of [(0, 0), (1, 1)], camb_kk = [1, 10],
          dtk = [''DM'' \<mapsto> map_of [(0, 100), (1, 100)], ''by'' \<mapsto> map_of [(0, 4), (1, 4)],
                 ''nu'' \<mapsto> map_of [(0, 9), (1, 9)], ''DMby'' \<mapsto> map_of [(0, 25), (1, 25)]]\<rparr>"
proof -
  have ss: "searchsorted [0, 1] 0 = 0" "searchsorted [0, 1] (log 10 100) = 2"
    "searchsorted [1, 10] 1 = 0" "searchsorted [1, 10] 100 = 2"
    by (simp_all add: searchsorted_def binsearch_left.simps)
  have cm: "column [[1, 1], [10, 10]] 0 = Inr [1, 10]"
    "column [[1, 1], [10, 10]] (Suc 0) = Inr [1, 10]"
    by (simp_all add: column_def)
  let ?T = "[[1, 10, 2, 0, 0, 3, 1, 5], [10, 10, 2, 0, 0, 3, 1, 5]] :: table"
  have ct: "column ?T 0 = Inr [1, 10]" "column ?T (Suc 0) = Inr [10, 10]"
    "column ?T 2 = Inr [2, 2]" "column ?T 5 = Inr [3, 3]" "column ?T 6 = Inr [1, 1]"
    "column ?T 7 = Inr [5, 5]"
    by (simp_all add: column_def)
  have ti: "transfer_interp node_interp ?T 0 2 [0, 1] (Suc 0) = Inr (map_of [(0, 100), (1, 100)])"
    "transfer_interp node_interp ?T 0 2 [0, 1] 2 = Inr (map_of [(0, 4), (1, 4)])"
    "transfer_interp node_interp ?T 0 2 [0, 1] 5 = Inr (map_of [(0, 9), (1, 9)])"
    "transfer_interp node_interp ?T 0 2 [0, 1] 7 = Inr (map_of [(0, 25), (1, 25)])"
    by (simp_all add: transfer_interp_def node_interp_def ct slice_def transfer_ratio_def)
  show ?thesis
    unfolding CAMBPowerSpectrum_init_def Let_def
    by (simp add: cm ss slice_def ct ti node_interp_def)
qed

theorem camb_species_power_witness:
  "CAMBPowerSpectrum_init node_interp [[1, 1], [10, 10]]
     [[1, 10, 2, 0, 0, 3, 1, 5], [10, 10, 2, 0, 0, 3, 1, 5]] 1 100
   = Inr \<lparr>dpk = map_of [(0, 0), (1, 1)], camb_kk = [1, 10],
          dtk = [''DM'' \<mapsto> map_of [(0, 100), (1, 100)], ''by'' \<mapsto> map_of [(0, 4), (1, 4)],
                 ''nu'' \<mapsto> map_of [(0, 9), (1, 9)], ''DMby'' \<mapsto> map_of [(0, 25), (1, 25)]]\<rparr>
   \<and> get_camb_power
        \<lparr>dpk = map_of [(0, 0), (1, 1)], camb_kk = [1, 10],
          dtk = [''DM'' \<mapsto> map_of [(0, 100), (1, 100)], ''by'' \<mapsto> map_of [(0, 4), (1, 4)],
                 ''nu'' \<mapsto> map_of [(0, 9), (1, 9)], ''DMby'' \<mapsto> map_of [(0, 25), (1, 25)]]\<rparr>
        [10] ''DM'' = Inr [10 * (10 / 1) ^ 2]"
proof -
  let ?T = "[[1, 10, 2, 0, 0, 3, 1, 5], [10, 10, 2, 0, 0, 3, 1, 5]] :: table"
  let ?C = "\<lparr>dpk = map_of [(0, 0), (1, 1)], camb_kk = [1, 10],
          dtk = [''DM'' \<mapsto> map_of [(0, 100), (1, 100)], ''by'' \<mapsto> map_of [(0, 4), (1, 4)],
                 ''nu'' \<mapsto> map_of [(0, 9), (1, 9)], ''DMby'' \<mapsto> map_of [(0, 25), (1, 25)]]\<rparr>"
  have ct: "column ?T 0 = Inr [1, 10]" "column ?T 1 = Inr [10, 10]" "column ?T 6 = Inr [1, 1]"
    by (simp_all add: column_def)
  have ss: "0 = searchsorted [1, 10] 1" "2 = searchsorted [1, 10] 100"
    by (simp_all add: searchsorted_def binsearch_left.simps)
  have sp: "(''DM'', 1::nat) \<in> {(''DM'', 1), (''by'', 2), (''nu'', 5), (''DMby'', 7)}" by simp
  from camb_species_power [OF camb_example sp ct(1) ss]
  obtain num den where nd: "column ?T 1 = Inr num" "column ?T 6 = Inr den"
    and node: "(\<forall>xs ys g. node_interp xs ys = Inr g \<longrightarrow>
            length xs = length ys \<and> (\<forall>j<length xs. g (xs ! j) = Some (ys ! j)))
        \<longrightarrow> (\<forall>i. 0 \<le> i \<and> i < 2 \<and> i < length [1, 10 :: real] \<and> dpk ?C (log 10 ([1, 10] ! i)) \<noteq> None \<longrightarrow>
              get_camb_power ?C [[1, 10] ! i] ''DM''
                = Inr [10 powr the (dpk ?C (log 10 ([1, 10] ! i))) * (num ! i / den ! i) ^ 2])"
    by blast
  from nd ct have [simp]: "num = [10, 10]" "den = [1, 1]" by simp_all
  from node node_interp_exact
  have "\<forall>i. 0 \<le> i \<and> i < 2 \<and> i < length [1, 10 :: real] \<and> dpk ?C (log 10 ([1, 10] ! i)) \<noteq> None \<longrightarrow>
              get_camb_power ?C [[1, 10] ! i] ''DM''
                = Inr [10 powr the (dpk ?C (log 10 ([1, 10] ! i))) * (num ! i / den ! i) ^ 2]"
    by blast
  from this [rule_format, of 1]
  have "get_camb_power ?C [10] ''DM'' = Inr [10 * (10 / 1) ^ 2]" by simp
  with camb_example show ?thesis by simp
qed

text \<open>
  The ordinates are not logarithms: with \<open>T_DM = 10\<close> and \<open>T_ref = 1\<close> at \<open>k = 10\<close>, the DM
  interpolant built over a table-lookup \<open>interp1d\<close> takes the value \<open>100\<close> there, which
  is the squared ratio and not its \<open>log10\<close>, \<open>2\<close>.
\<close>

theorem camb_transfer_ordinates_not_log:
  "CAMBPowerSpectrum_init node_interp [[1, 1], [10, 10]]
     [[1, 10, 2, 0, 0, 3, 1, 5], [10, 10, 2, 0, 0, 3, 1, 5]] 1 100
   = Inr \<lparr>dpk = map_of [(0, 0), (1, 1)], camb_kk = [1, 10],
          dtk = [''DM'' \<mapsto> map_of [(0, 100), (1, 100)], ''by'' \<mapsto> map_of [(0, 4), (1, 4)],
                 ''nu'' \<mapsto> map_of [(0, 9), (1, 9)], ''DMby'' \<mapsto> map_of [(0, 25), (1, 25)]]\<rparr>
   \<and> map_of [(0, 100), (1, 100 :: real)] (log 10 10) = Some ((10 / 1) ^ 2)
   \<and> log 10 ((10 / 1) ^ 2) = 2"
proof -
  have "log 10 ((10 / 1) ^ 2) = 2"
    using log_pow_cancel [of 10 2] by simp
  with camb_example show ?thesis by simp
qed

text \<open>
  C10. On a constructed \<open>CAMBPowerSpectrum\<close>, \<open>get_camb_power\<close> raises \<open>KeyError\<close> for
  every species other than tot, DM, by, nu and DMby, whatever the wavenumbers, and for
  none of these five.
\<close>

theorem get_camb_power_unknown_species:
  assumes "CAMBPowerSpectrum_init interp1d camb_matter camb_transfer kmin kmax = Inr camb"
  shows "(species \<notin> {''tot'', ''DM'', ''by'', ''nu'', ''DMby''}
            \<longrightarrow> get_camb_power camb kvals species = Inl KeyError)
       \<and> {s. get_camb_power camb kvals s \<noteq> Inl KeyError} = {''tot'', ''DM'', ''by'', ''nu'', ''DMby''}
       \<and> dom (dtk camb) = {''DM'', ''by'', ''nu'', ''DMby''}"
proof -
  from camb_dtk_dom [OF assms] have d: "dom (dtk camb) = {''DM'', ''by'', ''nu'', ''DMby''}" .
  have "{s. get_camb_power camb kvals s \<noteq> Inl KeyError} = insert ''tot'' (dom (dtk camb))"
    unfolding get_camb_power_KeyError by blast
  with d show ?thesis by (auto simp: get_camb_power_KeyError)
qed

theorem get_camb_power_unknown_species_witness:
  "CAMBPowerSpectrum_init node_interp [[1, 1], [10, 10]]
     [[1, 10, 2, 0, 0, 3, 1, 5], [10, 10, 2, 0, 0, 3, 1, 5]] 1 100
   = Inr \<lparr>dpk = map_of [(0, 0), (1, 1)], camb_kk = [1, 10],
          dtk = [''DM'' \<mapsto> map_of [(0, 100), (1, 100)], ''by'' \<mapsto> map_of [(0, 4), (1, 4)],
                 ''nu'' \<mapsto> map_of [(0, 9), (1, 9)], ''DMby'' \<mapsto> map_of [(0, 25), (1, 25)]]\<rparr>
   \<and> ''gas'' \<notin> {''tot'', ''DM'', ''by'', ''nu'', ''DMby''}
   \<and> get_camb_power
        \<lparr>dpk = map_of [(0, 0), (1, 1)], camb_kk = [1, 10],
          dtk = [''DM'' \<mapsto> map_of [(0, 100), (1, 100)], ''by'' \<mapsto> map_of [(0, 4), (1, 4)],
                 ''nu'' \<mapsto> map_of [(0, 9), (1, 9)], ''DMby'' \<mapsto> map_of [(0, 25), (1, 25)]]\<rparr>
        [1, 10] ''gas'' = Inl KeyError"
proof -
  have g: "''gas'' \<notin> {''tot'', ''DM'', ''by'', ''nu'', ''DMby''}" by simp
  from get_camb_power_unknown_species [OF camb_example, of "''gas''" "[1, 10]"] g camb_example
  show ?thesis by blast
qed

section \<open>Properties of check\_ic\_power\_spectra\<close>

lemma binsearch_left_sorted:
  assumes "sorted a"
  shows "lo \<le> hi \<Longrightarrow> hi \<le> length a \<Longrightarrow> \<forall>j<lo. a ! j < key
    \<Longrightarrow> \<forall>j. hi \<le> j \<and> j < length a \<longrightarrow> key \<le> a ! j
    \<Longrightarrow> lo \<le> binsearch_left a key lo hi \<and> binsearch_left a key lo hi \<le> hi
      \<and> (\<forall>j<binsearch_left a key lo hi. a ! j < key)
      \<and> (\<forall>j. binsearch_left a key lo hi \<le> j \<and> j < length a \<longrightarrow> key \<le> a ! j)"
  using assms
proof (induction a key lo hi rule: binsearch_left.induct)
  case (1 a key lo hi)
  note eq = binsearch_left.simps [of a key lo hi]
  let ?mid = "lo + (hi - lo) div 2"
  show ?case
  proof (cases "lo < hi")
    case False
    then have "binsearch_left a key lo hi = lo" by (simp add: eq)
    moreover from False "1.prems"(1) have "lo = hi" by simp
    ultimately show ?thesis using "1.prems" by simp
  next
    case True
    then have mid: "lo \<le> ?mid" "?mid < hi" by auto
    show ?thesis
    proof (cases "a ! ?mid < key")
      case less: True
      have below: "\<forall>j<?mid + 1. a ! j < key"
      proof (intro allI impI)
        fix j assume "j < ?mid + 1"
        then have "j \<le> ?mid" by simp
        with "1.prems"(2,5) mid have "a ! j \<le> a ! ?mid" by (auto intro!: sorted_nth_mono)
        with less show "a ! j < key" by simp
      qed
      from True less mid "1.prems" below
      have "?mid + 1 \<le> binsearch_left a key (?mid + 1) hi \<and> binsearch_left a key (?mid + 1) hi \<le> hi
        \<and> (\<forall>j<binsearch_left a key (?mid + 1) hi. a ! j < key)
        \<and> (\<forall>j. binsearch_left a key (?mid + 1) hi \<le> j \<and> j < length a \<longrightarrow> key \<le> a ! j)"
        by (intro "1.IH"(1)) auto
      with True less mid show ?thesis by (simp add: eq)
    next
      case geq: False
      have above: "\<forall>j. ?mid \<le> j \<and> j < length a \<longrightarrow> key \<le> a ! j"
      proof (intro allI impI)
        fix j assume "?mid \<le> j \<and> j < length a"
        with "1.prems"(5) have "a ! ?mid \<le> a ! j" by (auto intro!: sorted_nth_mono)
        with geq show "key \<le> a ! j" by simp
      qed
      from True geq mid "1.prems" above
      have "lo \<le> binsearch_left a key lo ?mid \<and> binsearch_left a key lo ?mid \<le> ?mid
        \<and> (\<forall>j<binsearch_left a key lo ?mid. a ! j < key)
        \<and> (\<forall>j. binsearch_left a key lo ?mid \<le> j \<and> j < length a \<longrightarrow> key \<le> a ! j)"
        by (intro "1.IH"(2)) auto
      with True geq mid show ?thesis by (simp add: eq)
    qed
  qed
qed

lemma searchsorted_first:
  assumes "sorted a"
  shows "searchsorted a v \<le> length a \<and> (\<forall>j<searchsorted a v. a ! j < v)
    \<and> (\<forall>j. searchsorted a v \<le> j \<and> j < length a \<longrightarrow> v \<le> a ! j)"
  using binsearch_left_sorted [OF assms, of 0 "length a" v] by (simp add: searchsorted_def)

lemma interp_call_length: "interp_call f xs = Inr r \<Longrightarrow> length r = length xs"
  by (auto simp: interp_call_def split: if_splits)

lemma get_camb_power_length:
  "get_camb_power camb kvals species = Inr r \<Longrightarrow> length r = length kvals"
  by (auto simp: get_camb_power_def split: if_splits sum.splits option.splits
      dest!: interp_call_length)

lemma comparison_window_tol:
  "comparison_window self sp accuracy kk_ic Pk_ic = Inr (tol, imin, imax)
   \<Longrightarrow> tol = (if sp = ''nu'' then accuracy * 4 else accuracy)
     \<and> imin = searchsorted kk_ic (2 * pi / box self * 4)
     \<and> (sp \<noteq> ''nu'' \<longrightarrow> imax = searchsorted kk_ic (of_int (npart self) * 2 * pi / box self / 4))"
  by (auto simp: comparison_window_def Let_def split: if_splits)

lemma check_species_reached:
  assumes "fs sp = Some go"
    and "load_genpk go (box self) 1 = Inr (kk_ic, Pk_ic)"
    and "get_camb_power camb kk_ic (theory_species self sp) = Inr Pk_camb"
    and "comparison_window self sp accuracy kk_ic Pk_ic = Inr (tol, imin, imax)"
    and "imin < length kk_ic" and "imax < length kk_ic"
  shows "check_species self camb fs sp accuracy =
     (case accuracy_check sp tol Pk_ic Pk_camb imin imax of Inl e \<Rightarrow> Inl e | Inr u \<Rightarrow> Inr tol)"
proof -
  from assms(3) have "length Pk_camb = length kk_ic" by (rule get_camb_power_length)
  with assms(5) have "Pk_camb \<noteq> []" "kk_ic \<noteq> []" by auto
  with assms(5,6) have "make_figures kk_ic Pk_camb imin imax = Inr ()"
    by (simp add: make_figures_def)
  with assms(1-4) show ?thesis by (simp add: check_species_def)
qed

text \<open>
  C1, as the code has it. For a species whose measurement loads, whose theory curve
  evaluates at every rebinned wavenumber, and whose \<open>imin\<close> and \<open>imax\<close> are positions of
  the rebinned spectrum (the figures index it there) with no theory value of 0 between
  them: the check raises the accuracy error, with the species label and the largest
  deviation, if more than 3 deviations in \<open>[imin, imax)\<close> exceed the tolerance, and
  passes otherwise. The tolerance is the caller's, times 4 for nu. For rebinned
  wavenumbers in increasing order \<open>imin\<close> is the first index with \<open>k \<ge> 4\<sqdot>2\<pi>/box\<close> and,
  for a species other than nu, \<open>imax\<close> the first with \<open>k \<ge> npart\<sqdot>2\<pi>/box/4\<close>.
\<close>

theorem check_species_accuracy_rule:
  assumes "fs sp = Some go"
    and "load_genpk go (box self) 1 = Inr (kk_ic, Pk_ic)"
    and "get_camb_power camb kk_ic (theory_species self sp) = Inr Pk_camb"
    and "comparison_window self sp accuracy kk_ic Pk_ic = Inr (tol, imin, imax)"
    and "imin < length kk_ic" and "imax < length kk_ic"
    and "0 \<notin> set (slice Pk_camb imin imax)"
  shows "check_species self camb fs sp accuracy =
           (if 3 < length (filter (\<lambda>e. tol < e) (deviation Pk_ic Pk_camb imin imax))
            then Inl (RuntimeError sp (Max (set (deviation Pk_ic Pk_camb imin imax))))
            else Inr tol)
       \<and> tol = (if sp = ''nu'' then accuracy * 4 else accuracy)
       \<and> (sorted kk_ic \<longrightarrow>
            (\<forall>j<imin. kk_ic ! j < 2 * pi / box self * 4) \<and> 2 * pi / box self * 4 \<le> kk_ic ! imin
          \<and> (sp \<noteq> ''nu'' \<longrightarrow>
               (\<forall>j<imax. kk_ic ! j < of_int (npart self) * 2 * pi / box self / 4)
               \<and> of_int (npart self) * 2 * pi / box self / 4 \<le> kk_ic ! imax))"
proof -
  have "check_species self camb fs sp accuracy =
     (case accuracy_check sp tol Pk_ic Pk_camb imin imax of Inl e \<Rightarrow> Inl e | Inr u \<Rightarrow> Inr tol)"
    using assms(1-6) by (rule check_species_reached)
  with assms(7)
  have run: "check_species self camb fs sp accuracy =
           (if 3 < length (filter (\<lambda>e. tol < e) (deviation Pk_ic Pk_camb imin imax))
            then Inl (RuntimeError sp (Max (set (deviation Pk_ic Pk_camb imin imax))))
            else Inr tol)"
    by (simp add: accuracy_check_def)
  note w = comparison_window_tol [OF assms(4)]
  have lo: "(\<forall>j<imin. kk_ic ! j < 2 * pi / box self * 4) \<and> 2 * pi / box self * 4 \<le> kk_ic ! imin"
    if "sorted kk_ic"
    using searchsorted_first [OF that, of "2 * pi / box self * 4"] w assms(5) by simp
  have hi: "(\<forall>j<imax. kk_ic ! j < of_int (npart self) * 2 * pi / box self / 4)
               \<and> of_int (npart self) * 2 * pi / box self / 4 \<le> kk_ic ! imax"
    if "sorted kk_ic" "sp \<noteq> ''nu''"
    using searchsorted_first [OF that(1), of "of_int (npart self) * 2 * pi / box self / 4"]
      w that(2) assms(6) by simp
  from run w lo hi show ?thesis by blast
qed

text \<open>
  C2. The theory curve that the DM measurement is compared with is tot when neither gas
  nor neutrinos are separate, DMby when gas is not separate and neutrinos are, and DM
  when gas is separate; by and nu are compared with their own curves.
\<close>

theorem theory_species_composition:
  "(\<not> separate_gas self \<and> \<not> separate_nu self \<longrightarrow> theory_species self ''DM'' = ''tot'')
   \<and> (\<not> separate_gas self \<and> separate_nu self \<longrightarrow> theory_species self ''DM'' = ''DMby'')
   \<and> (separate_gas self \<longrightarrow> theory_species self ''DM'' = ''DM'')
   \<and> theory_species self ''by'' = ''by''
   \<and> theory_species self ''nu'' = ''nu''"
  by (simp add: theory_species_def)

theorem theory_species_composition_witness:
  "theory_species \<lparr>box = 1, npart = 40, separate_gas = False, separate_nu = False\<rparr> ''DM'' = ''tot''
   \<and> theory_species \<lparr>box = 1, npart = 40, separate_gas = False, separate_nu = True\<rparr> ''DM'' = ''DMby''
   \<and> theory_species \<lparr>box = 1, npart = 40, separate_gas = True, separate_nu = False\<rparr> ''DM'' = ''DM''
   \<and> theory_species \<lparr>box = 1, npart = 40, separate_gas = True, separate_nu = True\<rparr> ''DM'' = ''DM''
   \<and> theory_species \<lparr>box = 1, npart = 40, separate_gas = False, separate_nu = False\<rparr> ''by'' = ''by''
   \<and> theory_species \<lparr>box = 1, npart = 40, separate_gas = False, separate_nu = True\<rparr> ''nu'' = ''nu''"
  using
    theory_species_composition [of "\<lparr>box = 1, npart = 40, separate_gas = False, separate_nu = False\<rparr>"]
    theory_species_composition [of "\<lparr>box = 1, npart = 40, separate_gas = False, separate_nu = True\<rparr>"]
    theory_species_composition [of "\<lparr>box = 1, npart = 40, separate_gas = True, separate_nu = False\<rparr>"]
    theory_species_composition [of "\<lparr>box = 1, npart = 40, separate_gas = True, separate_nu = True\<rparr>"]
  by simp

lemma hd_filter_upt_least:
  assumes "filter P [0..<n] \<noteq> []"
  shows "hd (filter P [0..<n]) < n \<and> P (hd (filter P [0..<n]))
    \<and> (\<forall>j<hd (filter P [0..<n]). \<not> P j)"
proof -
  let ?h = "hd (filter P [0..<n])"
  from assms have "?h \<in> set (filter P [0..<n])" by (rule hd_in_set)
  then have h: "?h < n" "P ?h" by auto
  have "\<not> P j" if "j < ?h" for j
  proof
    assume "P j"
    from that h have jn: "j < n" by simp
    have "sorted_wrt (<) (filter P [0..<n])" by (simp add: sorted_wrt_filter)
    moreover from jn \<open>P j\<close> have "j \<in> set (filter P [0..<n])" by simp
    ultimately have "?h \<le> j"
      using assms by (cases "filter P [0..<n]") (auto simp: less_imp_le)
    with that show False by simp
  qed
  with h show ?thesis by blast
qed

lemma comparison_window_nu:
  "comparison_window self ''nu'' accuracy kk_ic Pk_ic =
     (if box self = 0 then Inl ZeroDivisionError
      else if Pk_ic = [] then Inl IndexError
      else Inr (accuracy * 4, searchsorted kk_ic (2 * pi / box self * 4),
             if filter (\<lambda>i. Pk_ic ! i < Pk_ic ! 0 * (1 / 100000)) [0..<length Pk_ic] \<noteq> []
             then hd (filter (\<lambda>i. Pk_ic ! i < Pk_ic ! 0 * (1 / 100000)) [0..<length Pk_ic])
             else searchsorted kk_ic (of_int (npart self) * 2 * pi / box self / 4)))"
  unfolding comparison_window_def Let_def
  by (simp only: if_True refl length_greater_0_conv split: if_split) simp

text \<open>
  C3, as the code has it. For nu the tolerance is four times the one passed in, and
  where some measured power is below \<open>1e-5\<close> times the first one, \<open>imax\<close> is the first
  index of such a power, whether that is before or after the index found from
  \<open>npart\<sqdot>2\<pi>/box/4\<close>; where there is none, \<open>imax\<close> is the index found from
  \<open>npart\<sqdot>2\<pi>/box/4\<close>.
\<close>

theorem neutrino_window:
  assumes "comparison_window self ''nu'' accuracy kk_ic Pk_ic = Inr (tol, imin, imax)"
  shows "tol = accuracy * 4
    \<and> (if list_ex (\<lambda>p. p < Pk_ic ! 0 * (1 / 100000)) Pk_ic
        then imax < length Pk_ic \<and> Pk_ic ! imax < Pk_ic ! 0 * (1 / 100000)
             \<and> (\<forall>j<imax. \<not> Pk_ic ! j < Pk_ic ! 0 * (1 / 100000))
        else imax = searchsorted kk_ic (of_int (npart self) * 2 * pi / box self / 4))"
proof -
  define thr where "thr = Pk_ic ! 0 * (1 / 100000)"
  define P where "P = (\<lambda>i. Pk_ic ! i < thr)"
  define ii where "ii = filter P [0..<length Pk_ic]"
  define smax where "smax = searchsorted kk_ic (of_int (npart self) * 2 * pi / box self / 4)"
  have "comparison_window self ''nu'' accuracy kk_ic Pk_ic =
     (if box self = 0 then Inl ZeroDivisionError
      else if Pk_ic = [] then Inl IndexError
      else Inr (accuracy * 4, searchsorted kk_ic (2 * pi / box self * 4),
             if ii \<noteq> [] then hd ii else smax))"
    unfolding ii_def P_def thr_def smax_def by (rule comparison_window_nu)
  with assms have tol: "tol = accuracy * 4" and imax: "imax = (if ii \<noteq> [] then hd ii else smax)"
    by (simp_all split: if_splits)
  have ex: "list_ex (\<lambda>p. p < thr) Pk_ic \<longleftrightarrow> ii \<noteq> []"
  proof
    assume "list_ex (\<lambda>p. p < thr) Pk_ic"
    then obtain p where "p \<in> set Pk_ic" "p < thr"
      by (auto simp: list_ex_iff)
    then obtain i where "i < length Pk_ic" "P i"
      by (auto simp: in_set_conv_nth P_def)
    then have "i \<in> set ii" by (simp add: ii_def)
    then show "ii \<noteq> []" by auto
  next
    assume "ii \<noteq> []"
    then have "hd ii \<in> set ii" by (rule hd_in_set)
    then have "hd ii < length Pk_ic" "P (hd ii)" by (simp_all add: ii_def)
    then have "Pk_ic ! hd ii \<in> set Pk_ic" "Pk_ic ! hd ii < thr" by (simp_all add: P_def)
    then show "list_ex (\<lambda>p. p < thr) Pk_ic"
      unfolding list_ex_iff by blast
  qed
  have "if list_ex (\<lambda>p. p < thr) Pk_ic
        then imax < length Pk_ic \<and> P imax \<and> (\<forall>j<imax. \<not> P j)
        else imax = smax"
  proof (cases "ii = []")
    case True
    with imax ex show ?thesis by simp
  next
    case False
    then have "filter P [0..<length Pk_ic] \<noteq> []" by (simp add: ii_def)
    from hd_filter_upt_least [OF this] have "hd ii < length Pk_ic \<and> P (hd ii) \<and> (\<forall>j<hd ii. \<not> P j)"
      by (simp add: ii_def)
    with imax False ex show ?thesis by simp
  qed
  with tol show ?thesis unfolding P_def thr_def smax_def by simp
qed

lemma check_loop_unroll:
  "check_loop self camb fs a [''DM'', ''by'', ''nu''] =
     (case check_species self camb fs ''DM'' a of Inl e \<Rightarrow> Inl e | Inr a1 \<Rightarrow>
     (case check_species self camb fs ''by'' a1 of Inl e \<Rightarrow> Inl e | Inr a2 \<Rightarrow>
     (case check_species self camb fs ''nu'' a2 of Inl e \<Rightarrow> Inl e | Inr a3 \<Rightarrow> Inr ())))"
  by (simp split: sum.splits)

lemma check_species_keeps_accuracy:
  assumes "check_species self camb fs sp a = Inr a'" and "sp \<noteq> ''nu''"
  shows "a' = a"
proof (cases "fs sp")
  case None
  with assms(1) show ?thesis by (simp add: check_species_def split: if_splits)
next
  case (Some go)
  show ?thesis
  proof (cases "load_genpk go (box self) 1")
    case (Inl e)
    with Some assms(1) show ?thesis by (simp add: check_species_def)
  next
    case (Inr r)
    obtain kk_ic Pk_ic where r: "r = (kk_ic, Pk_ic)" by (cases r)
    show ?thesis
    proof (cases "get_camb_power camb kk_ic (theory_species self sp)")
      case (Inl e)
      with Some Inr r assms(1) show ?thesis by (simp add: check_species_def)
    next
      case Pc: (Inr Pk_camb)
      show ?thesis
      proof (cases "comparison_window self sp a kk_ic Pk_ic")
        case (Inl e)
        with Some Inr r Pc assms(1) show ?thesis by (simp add: check_species_def)
      next
        case w: (Inr t)
        obtain tol imin imax where t: "t = (tol, imin, imax)" by (cases t)
        from comparison_window_tol [OF w [unfolded t]] assms(2) have "tol = a" by simp
        moreover from Some Inr r Pc w t assms(1) have "a' = tol"
          by (simp add: check_species_def split: sum.splits)
        ultimately show ?thesis by simp
      qed
    qed
  qed
qed

lemma check_species_absent:
  "fs sp = None \<Longrightarrow> check_species self camb fs sp a =
     (if sp = ''DM'' \<or> (separate_gas self \<and> sp = ''by'') then Inl AssertionError else Inr a)"
  by (simp add: check_species_def)

lemma check_ic_power_spectra_loop:
  assumes "box self \<noteq> 0"
    and "CAMBPowerSpectrum_init interp1d matterpow transfer
           (2 * pi / box self / 5) (of_int (npart self) * 2 * pi / box self * 10) = Inr camb"
  shows "check_ic_power_spectra interp1d self matterpow transfer fs a
    = check_loop self camb fs a [''DM'', ''by'', ''nu'']"
  using assms by (simp add: check_ic_power_spectra_def)

text \<open>
  C7, as the code has it. The DM file must exist: without it the check fails on the
  assertion. With \<open>separate_gas\<close> the by file must exist too. Without \<open>separate_gas\<close> a
  missing by file is passed over, as a missing nu file always is: the check then
  succeeds if the species before it do. A by file that exists is checked, and in the same
  way, whether \<open>separate_gas\<close> is set or not.
\<close>

theorem measurement_files:
  assumes "box self \<noteq> 0"
    and "CAMBPowerSpectrum_init interp1d matterpow transfer
           (2 * pi / box self / 5) (of_int (npart self) * 2 * pi / box self * 10) = Inr camb"
  shows "(fs ''DM'' = None \<longrightarrow>
            check_ic_power_spectra interp1d self matterpow transfer fs a = Inl AssertionError)
    \<and> (separate_gas self \<and> fs ''by'' = None \<and> check_species self camb fs ''DM'' a = Inr a \<longrightarrow>
            check_ic_power_spectra interp1d self matterpow transfer fs a = Inl AssertionError)
    \<and> (\<not> separate_gas self \<and> fs ''by'' = None \<and> fs ''nu'' = None \<longrightarrow>
            check_ic_power_spectra interp1d self matterpow transfer fs a =
              (case check_species self camb fs ''DM'' a of Inl e \<Rightarrow> Inl e | Inr a1 \<Rightarrow> Inr ()))
    \<and> (fs ''nu'' = None \<longrightarrow>
            check_ic_power_spectra interp1d self matterpow transfer fs a =
              (case check_species self camb fs ''DM'' a of Inl e \<Rightarrow> Inl e | Inr a1 \<Rightarrow>
              (case check_species self camb fs ''by'' a1 of Inl e \<Rightarrow> Inl e | Inr a2 \<Rightarrow> Inr ())))
    \<and> (fs ''by'' \<noteq> None \<longrightarrow>
            check_species self camb fs ''by'' a
              = check_species (self\<lparr>separate_gas := True\<rparr>) camb fs ''by'' a)"
proof -
  note top = check_ic_power_spectra_loop [OF assms, of fs a]
  note un = check_loop_unroll [of self camb fs a]
  have nu: "check_species self camb fs ''nu'' x = Inr x" if "fs ''nu'' = None" for x
    using that by (simp add: check_species_absent)
  have c1: "check_ic_power_spectra interp1d self matterpow transfer fs a = Inl AssertionError"
    if "fs ''DM'' = None"
    using that top un by (simp add: check_species_absent)
  have c2: "check_ic_power_spectra interp1d self matterpow transfer fs a = Inl AssertionError"
    if "separate_gas self" "fs ''by'' = None" "check_species self camb fs ''DM'' a = Inr a"
    using that top un by (simp add: check_species_absent)
  have c4: "check_ic_power_spectra interp1d self matterpow transfer fs a =
              (case check_species self camb fs ''DM'' a of Inl e \<Rightarrow> Inl e | Inr a1 \<Rightarrow>
              (case check_species self camb fs ''by'' a1 of Inl e \<Rightarrow> Inl e | Inr a2 \<Rightarrow> Inr ()))"
    if "fs ''nu'' = None"
    unfolding top un by (simp add: nu [OF that] split: sum.splits)
  have c3: "check_ic_power_spectra interp1d self matterpow transfer fs a =
              (case check_species self camb fs ''DM'' a of Inl e \<Rightarrow> Inl e | Inr a1 \<Rightarrow> Inr ())"
    if "\<not> separate_gas self" "fs ''by'' = None" "fs ''nu'' = None"
    unfolding c4 [OF that(3)] using that(1,2) by (simp add: check_species_absent split: sum.splits)
  have c5: "check_species self camb fs ''by'' a
              = check_species (self\<lparr>separate_gas := True\<rparr>) camb fs ''by'' a"
    if "fs ''by'' \<noteq> None"
  proof -
    have ts: "theory_species s ''by'' = ''by''" for s
      by (simp add: theory_species_def)
    have cw: "comparison_window (self\<lparr>separate_gas := True\<rparr>) sp x k p
        = comparison_window self sp x k p" for sp x k p
      by (simp add: comparison_window_def)
    have bx: "box (self\<lparr>separate_gas := True\<rparr>) = box self" by simp
    from that obtain go where "fs ''by'' = Some go" by auto
    then show ?thesis unfolding check_species_def ts cw bx by simp
  qed
  from c1 c2 c3 c4 c5 show ?thesis by blast
qed

text \<open>
  C9. The evaluation of a species reads the measurements through that species' file
  only: two states of the files that agree on it give the same outcome. A species other
  than nu hands the tolerance on as it got it, so the whole check is the three
  evaluations in turn, each started from the caller's tolerance, stopped by the first
  that fails; and the tolerance that an evaluation applies is the caller's, times 4 for nu
  only.
\<close>

theorem species_checks_independent:
  assumes "box self \<noteq> 0"
    and "CAMBPowerSpectrum_init interp1d matterpow transfer
           (2 * pi / box self / 5) (of_int (npart self) * 2 * pi / box self * 10) = Inr camb"
  shows "(fs sp = fs' sp \<longrightarrow>
            check_species self camb fs sp a = check_species self camb fs' sp a)
    \<and> (sp \<noteq> ''nu'' \<and> check_species self camb fs sp a = Inr a' \<longrightarrow> a' = a)
    \<and> check_ic_power_spectra interp1d self matterpow transfer fs a =
         (case check_species self camb fs ''DM'' a of Inl e \<Rightarrow> Inl e | Inr a1 \<Rightarrow>
         (case check_species self camb fs ''by'' a of Inl e \<Rightarrow> Inl e | Inr a2 \<Rightarrow>
         (case check_species self camb fs ''nu'' a of Inl e \<Rightarrow> Inl e | Inr a3 \<Rightarrow> Inr ())))
    \<and> (comparison_window self sp a kk_ic Pk_ic = Inr (tol, imin, imax) \<longrightarrow>
          tol = (if sp = ''nu'' then a * 4 else a))"
proof -
  have same: "check_species self camb fs sp a = check_species self camb fs' sp a"
    if "fs sp = fs' sp"
    using that by (simp add: check_species_def)
  have keep: "a' = a" if "sp \<noteq> ''nu''" "check_species self camb fs sp a = Inr a'"
    using that(2,1) by (rule check_species_keeps_accuracy)
  have dm: "a1 = a" if "check_species self camb fs ''DM'' a = Inr a1" for a1
    using that by (rule check_species_keeps_accuracy) simp
  have bar: "a2 = a" if "check_species self camb fs ''by'' a = Inr a2" for a2
    using that by (rule check_species_keeps_accuracy) simp
  have run: "check_ic_power_spectra interp1d self matterpow transfer fs a =
         (case check_species self camb fs ''DM'' a of Inl e \<Rightarrow> Inl e | Inr a1 \<Rightarrow>
         (case check_species self camb fs ''by'' a of Inl e \<Rightarrow> Inl e | Inr a2 \<Rightarrow>
         (case check_species self camb fs ''nu'' a of Inl e \<Rightarrow> Inl e | Inr a3 \<Rightarrow> Inr ())))"
    unfolding check_ic_power_spectra_loop [OF assms] check_loop_unroll
  proof (cases "check_species self camb fs ''DM'' a")
    case (Inl e)
    then show "(case check_species self camb fs ''DM'' a of Inl e \<Rightarrow> Inl e | Inr a1 \<Rightarrow>
         (case check_species self camb fs ''by'' a1 of Inl e \<Rightarrow> Inl e | Inr a2 \<Rightarrow>
         (case check_species self camb fs ''nu'' a2 of Inl e \<Rightarrow> Inl e | Inr a3 \<Rightarrow> Inr ()))) =
         (case check_species self camb fs ''DM'' a of Inl e \<Rightarrow> Inl e | Inr a1 \<Rightarrow>
         (case check_species self camb fs ''by'' a of Inl e \<Rightarrow> Inl e | Inr a2 \<Rightarrow>
         (case check_species self camb fs ''nu'' a of Inl e \<Rightarrow> Inl e | Inr a3 \<Rightarrow> Inr ())))"
      by simp
  next
    case (Inr a1)
    with dm have [simp]: "a1 = a" by simp
    show "(case check_species self camb fs ''DM'' a of Inl e \<Rightarrow> Inl e | Inr a1 \<Rightarrow>
         (case check_species self camb fs ''by'' a1 of Inl e \<Rightarrow> Inl e | Inr a2 \<Rightarrow>
         (case check_species self camb fs ''nu'' a2 of Inl e \<Rightarrow> Inl e | Inr a3 \<Rightarrow> Inr ()))) =
         (case check_species self camb fs ''DM'' a of Inl e \<Rightarrow> Inl e | Inr a1 \<Rightarrow>
         (case check_species self camb fs ''by'' a of Inl e \<Rightarrow> Inl e | Inr a2 \<Rightarrow>
         (case check_species self camb fs ''nu'' a of Inl e \<Rightarrow> Inl e | Inr a3 \<Rightarrow> Inr ())))"
    proof (cases "check_species self camb fs ''by'' a")
      case (Inl e)
      with Inr show ?thesis by simp
    next
      case by2: (Inr a2)
      with bar have "a2 = a" by simp
      with Inr by2 show ?thesis by simp
    qed
  qed
  have tol: "tol = (if sp = ''nu'' then a * 4 else a)"
    if "comparison_window self sp a kk_ic Pk_ic = Inr (tol, imin, imax)"
    using comparison_window_tol [OF that] by simp
  from same keep run tol show ?thesis by blast
qed

section \<open>The worked run, evaluated\<close>

lemma log10_eq_iff: "0 < x \<Longrightarrow> 0 < y \<Longrightarrow> log 10 x = log 10 y \<longleftrightarrow> x = y"
  using log_inj [of 10] by (auto simp: inj_on_def)

lemma ex_ss:
  "searchsorted ex_nodes (log 10 (2 * pi / 5)) = 0"
  "searchsorted ex_nodes (log 10 (800 * pi)) = 5"
  "searchsorted [8 * pi, 10 * pi, 12 * pi, 14 * pi, 20 * pi] (2 * pi / 5) = 0"
  "searchsorted [8 * pi, 10 * pi, 12 * pi, 14 * pi, 20 * pi] (800 * pi) = 5"
  "searchsorted [8 * pi, 10 * pi, 12 * pi, 14 * pi, 20 * pi] (8 * pi) = 0"
  "searchsorted [8 * pi, 10 * pi, 12 * pi, 14 * pi, 20 * pi] (20 * pi) = 4"
  "searchsorted [8 * pi, 10 * pi, 12 * pi, 14 * pi] (8 * pi) = 0"
  "searchsorted [8 * pi, 10 * pi, 12 * pi, 14 * pi] (20 * pi) = 4"
  "searchsorted [8 * pi, 10 * pi, 12 * pi, 14 * pi, 20 * pi, 22 * pi] (8 * pi) = 0"
  "searchsorted [8 * pi, 10 * pi, 12 * pi, 14 * pi, 20 * pi, 22 * pi] (20 * pi) = 4"
  by (simp_all add: searchsorted_def ex_nodes_def binsearch_left.simps)

lemma ex_ss6:
  "searchsorted [8 * pi, 10 * pi, 12 * pi, 14 * pi, 20 * pi, 1000 * pi] (8 * pi) = 0"
  "searchsorted [8 * pi, 10 * pi, 12 * pi, 14 * pi, 20 * pi, 1000 * pi] (20 * pi) = 4"
  by (simp_all add: searchsorted_def binsearch_left.simps)

lemma ex_ss_nu:
  "searchsorted [8 * pi, 10 * pi, 12 * pi, 14 * pi, 20 * pi, 22 * pi] (8 * pi) = 0"
  "searchsorted [8 * pi, 10 * pi, 12 * pi, 14 * pi, 20 * pi, 22 * pi] (20 * pi) = 4"
  by (simp_all add: searchsorted_def binsearch_left.simps)

lemma ex_columns:
  "column ex_matterpow 0 = Inr [8 * pi, 10 * pi, 12 * pi, 14 * pi, 20 * pi]"
  "column ex_matterpow (Suc 0) = Inr [1, 1, 1, 1, 1]"
  "column ex_transfer 0 = Inr [8 * pi, 10 * pi, 12 * pi, 14 * pi, 20 * pi]"
  "column ex_transfer (Suc 0) = Inr [1, 1, 1, 1, 1]"
  "column ex_transfer 2 = Inr [1, 1, 1, 1, 1]"
  "column ex_transfer 5 = Inr [1, 1, 1, 1, 1]"
  "column ex_transfer 6 = Inr [1, 1, 1, 1, 1]"
  "column ex_transfer 7 = Inr [1, 1, 1, 1, 1]"
  by (simp_all add: column_def ex_matterpow_def ex_transfer_def)

lemma ex_nodes_distinct: "distinct ex_nodes"
  by (simp add: ex_nodes_def log10_eq_iff)

lemma ex_transfer_interp:
  "transfer_interp node_interp ex_transfer 0 5 ex_nodes (Suc 0)
     = Inr (map_of (zip ex_nodes [1, 1, 1, 1, 1]))"
  "transfer_interp node_interp ex_transfer 0 5 ex_nodes 2
     = Inr (map_of (zip ex_nodes [1, 1, 1, 1, 1]))"
  "transfer_interp node_interp ex_transfer 0 5 ex_nodes 5
     = Inr (map_of (zip ex_nodes [1, 1, 1, 1, 1]))"
  "transfer_interp node_interp ex_transfer 0 5 ex_nodes 7
     = Inr (map_of (zip ex_nodes [1, 1, 1, 1, 1]))"
proof -
  have len: "length ex_nodes = 5" by (simp add: ex_nodes_def)
  have r: "transfer_ratio [1, 1, 1, 1, 1] [1, 1, 1, 1, 1] = [1, 1, 1, 1, 1]"
    by (simp add: transfer_ratio_def)
  have n: "node_interp ex_nodes [1, 1, 1, 1, 1] = Inr (map_of (zip ex_nodes [1, 1, 1, 1, 1]))"
    using ex_nodes_distinct by (simp add: node_interp_def len)
  show "transfer_interp node_interp ex_transfer 0 5 ex_nodes (Suc 0)
     = Inr (map_of (zip ex_nodes [1, 1, 1, 1, 1]))"
  "transfer_interp node_interp ex_transfer 0 5 ex_nodes 2
     = Inr (map_of (zip ex_nodes [1, 1, 1, 1, 1]))"
  "transfer_interp node_interp ex_transfer 0 5 ex_nodes 5
     = Inr (map_of (zip ex_nodes [1, 1, 1, 1, 1]))"
  "transfer_interp node_interp ex_transfer 0 5 ex_nodes 7
     = Inr (map_of (zip ex_nodes [1, 1, 1, 1, 1]))"
    by (simp_all add: transfer_interp_def ex_columns slice_def r n)
qed

lemma ex_box: "box (ex_self sg) \<noteq> 0"
  by (simp add: ex_self_def)

lemma ex_camb_built:
  "CAMBPowerSpectrum_init node_interp ex_matterpow ex_transfer
     (2 * pi / box (ex_self sg) / 5) (of_int (npart (ex_self sg)) * 2 * pi / box (ex_self sg) * 10)
   = Inr ex_camb"
proof -
  have shape: "length ex_matterpow = 5" "hd ex_matterpow = [8 * pi, 1]"
    by (simp_all add: ex_matterpow_def)
  have k: "2 * pi / box (ex_self sg) / 5 = 2 * pi / 5"
    "of_int (npart (ex_self sg)) * 2 * pi / box (ex_self sg) * 10 = 800 * pi"
    by (simp_all add: ex_self_def)
  have lk: "map (log 10) [8 * pi, 10 * pi, 12 * pi, 14 * pi, 20 * pi] = ex_nodes"
    "map (log 10) [1, 1, 1, 1, 1] = [0, 0, 0, 0, 0]"
    by (simp_all add: ex_nodes_def)
  have len: "length ex_nodes = 5" by (simp add: ex_nodes_def)
  have sl: "slice ex_nodes 0 5 = ex_nodes" "slice [0, 0, 0, 0, 0 :: real] 0 5 = [0, 0, 0, 0, 0]"
    "slice [8 * pi, 10 * pi, 12 * pi, 14 * pi, 20 * pi] 0 5
       = [8 * pi, 10 * pi, 12 * pi, 14 * pi, 20 * pi]"
    by (simp_all add: slice_def len)
  have dp: "node_interp ex_nodes [0, 0, 0, 0, 0] = Inr (map_of (zip ex_nodes [0, 0, 0, 0, 0]))"
    using ex_nodes_distinct by (simp add: node_interp_def len)
  have pos: "\<not> list_ex (\<lambda>x. x \<le> 0) [8 * pi, 10 * pi, 12 * pi, 14 * pi, 20 * pi]"
    "\<not> list_ex (\<lambda>x. x \<le> 0) [1, 1, 1, 1, 1 :: real]" "\<not> 2 * pi / 5 \<le> 0" "\<not> 800 * pi \<le> 0"
    by (simp_all add: not_le)
  have pw: "map (\<lambda>x. 10 powr x) ex_nodes = [8 * pi, 10 * pi, 12 * pi, 14 * pi, 20 * pi]"
    by (simp add: ex_nodes_def)
  show ?thesis
    unfolding CAMBPowerSpectrum_init_def Let_def k ex_columns sum.case lk ex_ss sl dp
      ex_transfer_interp pw
    using pos by (simp add: shape ex_camb_def ex_columns sl dp ex_transfer_interp)
qed

lemma ex_load5:
  assumes "0 \<le> p4" "0 \<le> p5" "0 \<le> p6" "0 \<le> p7" "0 \<le> p10"
  shows "load_genpk [[4, p4, 1], [5, p5, 1], [6, p6, 1], [7, p7, 1], [10, p10, 1]] 1 1
    = Inr ([8 * pi, 10 * pi, 12 * pi, 14 * pi, 20 * pi], [p4, p5, p6, p7, p10])"
  using assms
  by (simp add: load_genpk_def column_def genpk_kk_def genpk_Pk_def
      rebin_loop.simps bin_sum_def slice_def)

lemma ex_load4:
  assumes "0 \<le> p4" "0 \<le> p5" "0 \<le> p6" "0 \<le> p7"
  shows "load_genpk [[4, p4, 1], [5, p5, 1], [6, p6, 1], [7, p7, 1]] 1 1
    = Inr ([8 * pi, 10 * pi, 12 * pi, 14 * pi], [p4, p5, p6, p7])"
  using assms
  by (simp add: load_genpk_def column_def genpk_kk_def genpk_Pk_def
      rebin_loop.simps bin_sum_def slice_def)

lemma ex_load6:
  assumes "0 \<le> p4" "0 \<le> p5" "0 \<le> p6" "0 \<le> p7" "0 \<le> p10" "0 \<le> p" "0 < k"
  shows "load_genpk [[4, p4, 1], [5, p5, 1], [6, p6, 1], [7, p7, 1], [10, p10, 1], [k, p, 1]] 1 1
    = Inr ([8 * pi, 10 * pi, 12 * pi, 14 * pi, 20 * pi, k * (2 * pi)], [p4, p5, p6, p7, p10, p])"
  using assms
  by (simp add: load_genpk_def column_def genpk_kk_def genpk_Pk_def
      rebin_loop.simps bin_sum_def slice_def)

lemma ex_lookup:
  "map_of (zip ex_nodes [v1, v2, v3, v4, v5]) (log 10 (8 * pi)) = Some v1"
  "map_of (zip ex_nodes [v1, v2, v3, v4, v5]) (log 10 (10 * pi)) = Some v2"
  "map_of (zip ex_nodes [v1, v2, v3, v4, v5]) (log 10 (12 * pi)) = Some v3"
  "map_of (zip ex_nodes [v1, v2, v3, v4, v5]) (log 10 (14 * pi)) = Some v4"
  "map_of (zip ex_nodes [v1, v2, v3, v4, v5]) (log 10 (20 * pi)) = Some v5"
  "map_of (zip ex_nodes [v1, v2, v3, v4, v5]) (log 10 (1000 * pi)) = None"
  by (simp_all add: ex_nodes_def log10_eq_iff)

lemma ex_theory5:
  "get_camb_power ex_camb [8 * pi, 10 * pi, 12 * pi, 14 * pi, 20 * pi] ''tot'' = Inr [1, 1, 1, 1, 1]"
  "get_camb_power ex_camb [8 * pi, 10 * pi, 12 * pi, 14 * pi, 20 * pi] ''DM'' = Inr [1, 1, 1, 1, 1]"
  "get_camb_power ex_camb [8 * pi, 10 * pi, 12 * pi, 14 * pi, 20 * pi] ''by'' = Inr [1, 1, 1, 1, 1]"
  by (simp_all add: get_camb_power_def ex_camb_def interp_call_def ex_lookup not_le)

lemma ex_theory4:
  "get_camb_power ex_camb [8 * pi, 10 * pi, 12 * pi, 14 * pi] ''DM'' = Inr [1, 1, 1, 1]"
  by (simp_all add: get_camb_power_def ex_camb_def interp_call_def ex_lookup not_le)

lemma ex_theory6:
  "get_camb_power ex_camb [8 * pi, 10 * pi, 12 * pi, 14 * pi, 20 * pi, 1000 * pi] ''DM''
     = Inl ValueError"
  by (simp_all add: get_camb_power_def ex_camb_def interp_call_def ex_lookup not_le)

lemma ex_window:
  "sp \<noteq> ''nu'' \<Longrightarrow>
   comparison_window (ex_self sg) sp a [8 * pi, 10 * pi, 12 * pi, 14 * pi, 20 * pi] Pk
     = Inr (a, 0, 4)"
  "sp \<noteq> ''nu'' \<Longrightarrow>
   comparison_window (ex_self sg) sp a [8 * pi, 10 * pi, 12 * pi, 14 * pi] Pk = Inr (a, 0, 4)"
  by (simp_all add: comparison_window_def ex_self_def ex_ss)

lemma ex_deviation:
  "deviation [p4, p5, p6, p7, p10] [1, 1, 1, 1, 1] 0 4 = [\<bar>p4 - 1\<bar>, \<bar>p5 - 1\<bar>, \<bar>p6 - 1\<bar>, \<bar>p7 - 1\<bar>]"
  "deviation [p4, p5, p6, p7] [1, 1, 1, 1] 0 4 = [\<bar>p4 - 1\<bar>, \<bar>p5 - 1\<bar>, \<bar>p6 - 1\<bar>, \<bar>p7 - 1\<bar>]"
  by (simp_all add: deviation_def slice_def)

lemma ex_check5:
  assumes "fs sp = Some [[4, p4, 1], [5, p5, 1], [6, p6, 1], [7, p7, 1], [10, p10, 1]]"
    and "sp = ''DM'' \<or> sp = ''by''"
    and "0 \<le> p4" "0 \<le> p5" "0 \<le> p6" "0 \<le> p7" "0 \<le> p10"
  shows "check_species (ex_self sg) ex_camb fs sp a =
     (case accuracy_check sp a [p4, p5, p6, p7, p10] [1, 1, 1, 1, 1] 0 4 of
        Inl e \<Rightarrow> Inl e | Inr u \<Rightarrow> Inr a)"
proof -
  let ?kk = "[8 * pi, 10 * pi, 12 * pi, 14 * pi, 20 * pi]"
  have b: "box (ex_self sg) = 1" by (simp add: ex_self_def)
  have l: "load_genpk [[4, p4, 1], [5, p5, 1], [6, p6, 1], [7, p7, 1], [10, p10, 1]]
             (box (ex_self sg)) 1 = Inr (?kk, [p4, p5, p6, p7, p10])"
    unfolding b using assms(3-7) by (rule ex_load5)
  from assms(2) have "theory_species (ex_self sg) sp \<in> {''tot'', ''DM'', ''by''}"
    by (auto simp: theory_species_def ex_self_def)
  then have th: "get_camb_power ex_camb ?kk (theory_species (ex_self sg) sp) = Inr [1, 1, 1, 1, 1]"
    using ex_theory5 by auto
  from assms(2) have "sp \<noteq> ''nu''" by auto
  then have w: "comparison_window (ex_self sg) sp a ?kk [p4, p5, p6, p7, p10] = Inr (a, 0, 4)"
    by (rule ex_window)
  have idx: "0 < length ?kk" "4 < length ?kk" by simp_all
  from assms(1) l th w idx show ?thesis by (rule check_species_reached)
qed

lemma ex_accuracy:
  "accuracy_check sp (1/20) [11/10, 11/10, 11/10, 11/10, 1] [1, 1, 1, 1, 1] 0 4
     = Inl (RuntimeError sp (1/10))"
  "accuracy_check sp (1/20) [1, 1, 1, 1, 1] [1, 1, 1, 1, 1] 0 4 = Inr ()"
  "accuracy_check sp (1/20) [11/10, 1, 1, 1, 1] [1, 1, 1, 1, 1] 0 4 = Inr ()"
  by (simp_all add: accuracy_check_def ex_deviation) (simp_all add: slice_def)

theorem check_species_accuracy_rule_witness:
  "check_species (ex_self True) ex_camb
     [''DM'' \<mapsto> [[4, 11/10, 1], [5, 11/10, 1], [6, 11/10, 1], [7, 11/10, 1], [10, 1, 1]]]
     ''DM'' (1/20) = Inl (RuntimeError ''DM'' (1/10))
   \<and> check_species (ex_self True) ex_camb
     [''DM'' \<mapsto> [[4, 11/10, 1], [5, 11/10, 1], [6, 11/10, 1], [7, 1, 1], [10, 1, 1]]]
     ''DM'' (1/20) = Inr (1/20)
   \<and> sorted [8 * pi, 10 * pi, 12 * pi, 14 * pi, 20 * pi]
   \<and> 2 * pi / box (ex_self True) * 4 \<le> [8 * pi, 10 * pi, 12 * pi, 14 * pi, 20 * pi] ! 0
   \<and> of_int (npart (ex_self True)) * 2 * pi / box (ex_self True) / 4
        \<le> [8 * pi, 10 * pi, 12 * pi, 14 * pi, 20 * pi] ! 4"
proof -
  let ?kk = "[8 * pi, 10 * pi, 12 * pi, 14 * pi, 20 * pi]"
  let ?go4 = "[[4, 11/10, 1], [5, 11/10, 1], [6, 11/10, 1], [7, 11/10, 1], [10, 1, 1]] :: table"
  let ?go3 = "[[4, 11/10, 1], [5, 11/10, 1], [6, 11/10, 1], [7, 1, 1], [10, 1, 1]] :: table"
  have srt: "sorted ?kk" by simp
  have sp: "theory_species (ex_self True) ''DM'' = ''DM''" "box (ex_self True) = 1"
    by (simp_all add: theory_species_def ex_self_def)
  have l4: "load_genpk ?go4 (box (ex_self True)) 1 = Inr (?kk, [11/10, 11/10, 11/10, 11/10, 1])"
    and l3: "load_genpk ?go3 (box (ex_self True)) 1 = Inr (?kk, [11/10, 11/10, 11/10, 1, 1])"
    unfolding sp by (rule ex_load5; simp)+
  have th: "get_camb_power ex_camb ?kk (theory_species (ex_self True) ''DM'') = Inr [1, 1, 1, 1, 1]"
    unfolding sp by (rule ex_theory5)
  have w: "comparison_window (ex_self True) ''DM'' (1/20) ?kk Pk = Inr (1/20, 0, 4)" for Pk
    by (rule ex_window) simp
  have f4: "[''DM'' \<mapsto> ?go4] ''DM'' = Some ?go4" and f3: "[''DM'' \<mapsto> ?go3] ''DM'' = Some ?go3"
    by simp_all
  have idx: "0 < length ?kk" "4 < length ?kk" "0 \<notin> set (slice [1, 1, 1, 1, 1 :: real] 0 4)"
    by (simp_all add: slice_def)
  note r4 = check_species_accuracy_rule [of "[''DM'' \<mapsto> ?go4]" "''DM''" ?go4 "ex_self True",
      OF f4 l4 th w idx]
  note r3 = check_species_accuracy_rule [of "[''DM'' \<mapsto> ?go3]" "''DM''" ?go3 "ex_self True",
      OF f3 l3 th w idx]
  from r4 have a: "check_species (ex_self True) ex_camb [''DM'' \<mapsto> ?go4] ''DM'' (1/20)
      = Inl (RuntimeError ''DM'' (1/10))"
    by (simp add: ex_deviation)
  from r3 have b: "check_species (ex_self True) ex_camb [''DM'' \<mapsto> ?go3] ''DM'' (1/20)
      = Inr (1/20)"
    by (simp add: ex_deviation)
  from r4 srt have c: "2 * pi / box (ex_self True) * 4 \<le> ?kk ! 0
    \<and> of_int (npart (ex_self True)) * 2 * pi / box (ex_self True) / 4 \<le> ?kk ! 4"
    by simp
  from a b c srt show ?thesis by simp
qed

text \<open>
  Two runs in which four samples of the window deviate by a tenth, twice the tolerance,
  and no accuracy error is raised. In the first the measured spectrum has a wavenumber, \<open>1000\<pi>\<close>, beyond the
  range of the theory curves, which are evaluated at every rebinned wavenumber: the check
  stops with \<open>ValueError\<close>, though the theory has values on the whole window. In the
  second every measured wavenumber is below \<open>npart\<sqdot>2\<pi>/box/4\<close>, so \<open>imax\<close> is the length
  of the spectrum and \<open>kk_ic[imax]\<close>, evaluated for the figures, raises \<open>IndexError\<close>.
\<close>

theorem check_species_stops_before_accuracy_check:
  "check_species (ex_self True) ex_camb
     [''DM'' \<mapsto> [[4, 11/10, 1], [5, 11/10, 1], [6, 11/10, 1], [7, 11/10, 1], [10, 1, 1],
                [500, 1, 1]]]
     ''DM'' (1/20) = Inl ValueError
   \<and> load_genpk [[4, 11/10, 1], [5, 11/10, 1], [6, 11/10, 1], [7, 11/10, 1], [10, 1, 1],
                [500, 1, 1]] 1 1
       = Inr ([8 * pi, 10 * pi, 12 * pi, 14 * pi, 20 * pi, 1000 * pi],
              [11/10, 11/10, 11/10, 11/10, 1, 1])
   \<and> comparison_window (ex_self True) ''DM'' (1/20)
        [8 * pi, 10 * pi, 12 * pi, 14 * pi, 20 * pi, 1000 * pi] [11/10, 11/10, 11/10, 11/10, 1, 1]
       = Inr (1/20, 0, 4)
   \<and> get_camb_power ex_camb (slice [8 * pi, 10 * pi, 12 * pi, 14 * pi, 20 * pi, 1000 * pi] 0 4)
        ''DM'' = Inr [1, 1, 1, 1]
   \<and> deviation [11/10, 11/10, 11/10, 11/10, 1, 1] [1, 1, 1, 1] 0 4 = [1/10, 1/10, 1/10, 1/10]
   \<and> check_species (ex_self True) ex_camb
     [''DM'' \<mapsto> [[4, 11/10, 1], [5, 11/10, 1], [6, 11/10, 1], [7, 11/10, 1]]]
     ''DM'' (1/20) = Inl IndexError
   \<and> load_genpk [[4, 11/10, 1], [5, 11/10, 1], [6, 11/10, 1], [7, 11/10, 1]] 1 1
       = Inr ([8 * pi, 10 * pi, 12 * pi, 14 * pi], [11/10, 11/10, 11/10, 11/10])
   \<and> comparison_window (ex_self True) ''DM'' (1/20)
        [8 * pi, 10 * pi, 12 * pi, 14 * pi] [11/10, 11/10, 11/10, 11/10] = Inr (1/20, 0, 4)
   \<and> get_camb_power ex_camb [8 * pi, 10 * pi, 12 * pi, 14 * pi] ''DM'' = Inr [1, 1, 1, 1]
   \<and> deviation [11/10, 11/10, 11/10, 11/10] [1, 1, 1, 1] 0 4 = [1/10, 1/10, 1/10, 1/10]"
proof -
  let ?go6 = "[[4, 11/10, 1], [5, 11/10, 1], [6, 11/10, 1], [7, 11/10, 1], [10, 1, 1],
                [500, 1, 1]] :: table"
  let ?go4 = "[[4, 11/10, 1], [5, 11/10, 1], [6, 11/10, 1], [7, 11/10, 1]] :: table"
  let ?kk6 = "[8 * pi, 10 * pi, 12 * pi, 14 * pi, 20 * pi, 1000 * pi]"
  let ?kk4 = "[8 * pi, 10 * pi, 12 * pi, 14 * pi]"
  have sp: "theory_species (ex_self True) ''DM'' = ''DM''" "box (ex_self True) = 1"
    by (simp_all add: theory_species_def ex_self_def)
  have "load_genpk ?go6 1 1 = Inr ([8 * pi, 10 * pi, 12 * pi, 14 * pi, 20 * pi, 500 * (2 * pi)],
          [11/10, 11/10, 11/10, 11/10, 1, 1])"
    by (rule ex_load6) simp_all
  then have l6: "load_genpk ?go6 1 1 = Inr (?kk6, [11/10, 11/10, 11/10, 11/10, 1, 1])" by simp
  have l4: "load_genpk ?go4 1 1 = Inr (?kk4, [11/10, 11/10, 11/10, 11/10])"
    by (rule ex_load4) simp_all
  have w6: "comparison_window (ex_self True) ''DM'' (1/20) ?kk6 [11/10, 11/10, 11/10, 11/10, 1, 1]
      = Inr (1/20, 0, 4)"
    by (simp add: comparison_window_def ex_self_def ex_ss6)
  have w4: "comparison_window (ex_self True) ''DM'' (1/20) ?kk4 [11/10, 11/10, 11/10, 11/10]
      = Inr (1/20, 0, 4)"
    by (rule ex_window) simp
  have t6: "get_camb_power ex_camb (slice ?kk6 0 4) ''DM'' = Inr [1, 1, 1, 1]"
    using ex_theory4 by (simp add: slice_def)
  have d6: "deviation [11/10, 11/10, 11/10, 11/10, 1, 1] [1, 1, 1, 1] 0 4
      = [1/10, 1/10, 1/10, 1/10]"
    by (simp add: deviation_def slice_def)
  have d4: "deviation [11/10, 11/10, 11/10, 11/10] [1, 1, 1, 1] 0 4 = [1/10, 1/10, 1/10, 1/10]"
    by (simp add: deviation_def slice_def)
  have c6: "check_species (ex_self True) ex_camb [''DM'' \<mapsto> ?go6] ''DM'' (1/20) = Inl ValueError"
    by (simp add: check_species_def sp l6 ex_theory6)
  have c4: "check_species (ex_self True) ex_camb [''DM'' \<mapsto> ?go4] ''DM'' (1/20) = Inl IndexError"
    by (simp add: check_species_def sp l4 ex_theory4 w4 make_figures_def)
  show ?thesis
    by (intro conjI) (rule c6 l6 w6 t6 d6 c4 l4 w4 ex_theory4 d4)+
qed

theorem neutrino_window_witness:
  "comparison_window (ex_self True) ''nu'' (1/20)
     [8 * pi, 10 * pi, 12 * pi, 14 * pi, 20 * pi] [1, 1, 1 / 1000000, 1, 1] = Inr (1/5, 0, 2)
   \<and> (1/5 :: real) = 1/20 * 4
   \<and> list_ex (\<lambda>p. p < [1, 1, 1 / 1000000, 1, 1] ! 0 * (1 / 100000))
        [1, 1, 1 / 1000000, 1, 1 :: real]
   \<and> [1, 1, 1 / 1000000, 1, 1 :: real] ! 2 < [1, 1, 1 / 1000000, 1, 1] ! 0 * (1 / 100000)
   \<and> list_all (\<lambda>j. \<not> [1, 1, 1 / 1000000, 1, 1 :: real] ! j < [1, 1, 1 / 1000000, 1, 1] ! 0 * (1 / 100000))
        [0..<2]"
proof -
  let ?kk = "[8 * pi, 10 * pi, 12 * pi, 14 * pi, 20 * pi]"
  let ?Pk = "[1, 1, 1 / 1000000, 1, 1] :: real list"
  have w: "comparison_window (ex_self True) ''nu'' (1/20) ?kk ?Pk = Inr (1/5, 0, 2)"
    by (simp add: comparison_window_def ex_self_def ex_ss upt_rec)
  have ex: "list_ex (\<lambda>p. p < ?Pk ! 0 * (1 / 100000)) ?Pk" by simp
  from neutrino_window [OF w] ex
  have "(1/5 :: real) = 1/20 * 4" "?Pk ! 2 < ?Pk ! 0 * (1 / 100000)"
    "\<forall>j<2. \<not> ?Pk ! j < ?Pk ! 0 * (1 / 100000)"
    by simp_all
  moreover from this(3) have "list_all (\<lambda>j. \<not> ?Pk ! j < ?Pk ! 0 * (1 / 100000)) [0..<2]"
    unfolding list_all_iff by simp
  ultimately show ?thesis using w ex by (intro conjI)
qed

text \<open>
  A neutrino spectrum whose power first falls below \<open>1e-5\<close> of the first value at index
  5, after the index 4 that \<open>npart\<sqdot>2\<pi>/box/4\<close> gives: \<open>imax\<close> becomes 5, and the window
  grows from \<open>[0, 4)\<close> to \<open>[0, 5)\<close>.
\<close>

theorem neutrino_window_can_grow:
  "load_genpk [[4, 1, 1], [5, 1, 1], [6, 1, 1], [7, 1, 1], [10, 1, 1], [11, 1 / 1000000, 1]] 1 1
     = Inr ([8 * pi, 10 * pi, 12 * pi, 14 * pi, 20 * pi, 22 * pi], [1, 1, 1, 1, 1, 1 / 1000000])
   \<and> searchsorted [8 * pi, 10 * pi, 12 * pi, 14 * pi, 20 * pi, 22 * pi]
        (of_int (npart (ex_self True)) * 2 * pi / box (ex_self True) / 4) = 4
   \<and> comparison_window (ex_self True) ''nu'' (1/20)
        [8 * pi, 10 * pi, 12 * pi, 14 * pi, 20 * pi, 22 * pi] [1, 1, 1, 1, 1, 1 / 1000000]
       = Inr (1/5, 0, 5)"
proof -
  have "load_genpk [[4, 1, 1], [5, 1, 1], [6, 1, 1], [7, 1, 1], [10, 1, 1], [11, 1 / 1000000, 1]] 1 1
     = Inr ([8 * pi, 10 * pi, 12 * pi, 14 * pi, 20 * pi, 11 * (2 * pi)], [1, 1, 1, 1, 1, 1 / 1000000])"
    by (rule ex_load6) simp_all
  then have l: "load_genpk [[4, 1, 1], [5, 1, 1], [6, 1, 1], [7, 1, 1], [10, 1, 1], [11, 1 / 1000000, 1]] 1 1
     = Inr ([8 * pi, 10 * pi, 12 * pi, 14 * pi, 20 * pi, 22 * pi], [1, 1, 1, 1, 1, 1 / 1000000])"
    by simp
  have s: "searchsorted [8 * pi, 10 * pi, 12 * pi, 14 * pi, 20 * pi, 22 * pi]
        (of_int (npart (ex_self True)) * 2 * pi / box (ex_self True) / 4) = 4"
    by (simp add: ex_self_def ex_ss_nu)
  have w: "comparison_window (ex_self True) ''nu'' (1/20)
        [8 * pi, 10 * pi, 12 * pi, 14 * pi, 20 * pi, 22 * pi] [1, 1, 1, 1, 1, 1 / 1000000]
       = Inr (1/5, 0, 5)"
    by (simp add: comparison_window_def ex_self_def ex_ss_nu upt_rec)
  show ?thesis by (intro conjI) (rule l s w)+
qed

theorem measurement_files_witness:
  "check_ic_power_spectra node_interp (ex_self True) ex_matterpow ex_transfer Map.empty (1/20)
     = Inl AssertionError
   \<and> check_species (ex_self True) ex_camb
        [''DM'' \<mapsto> [[4, 1, 1], [5, 1, 1], [6, 1, 1], [7, 1, 1], [10, 1, 1]]] ''DM'' (1/20)
       = Inr (1/20)
   \<and> check_ic_power_spectra node_interp (ex_self True) ex_matterpow ex_transfer
        [''DM'' \<mapsto> [[4, 1, 1], [5, 1, 1], [6, 1, 1], [7, 1, 1], [10, 1, 1]]] (1/20)
       = Inl AssertionError
   \<and> check_ic_power_spectra node_interp (ex_self False) ex_matterpow ex_transfer
        [''DM'' \<mapsto> [[4, 1, 1], [5, 1, 1], [6, 1, 1], [7, 1, 1], [10, 1, 1]]] (1/20)
       = Inr ()"
proof -
  let ?go = "[[4, 1, 1], [5, 1, 1], [6, 1, 1], [7, 1, 1], [10, 1, 1]] :: table"
  have dm: "check_species (ex_self sg) ex_camb [''DM'' \<mapsto> ?go] ''DM'' (1/20) = Inr (1/20)" for sg
    by (subst ex_check5 [of "[''DM'' \<mapsto> ?go]" "''DM''" 1 1 1 1 1]) (simp_all add: ex_accuracy)
  have flags: "separate_gas (ex_self True)" "\<not> separate_gas (ex_self False)"
    by (simp_all add: ex_self_def)
  note t0 = measurement_files [OF ex_box [of True] ex_camb_built [of True], of Map.empty "1/20"]
  note t1 = measurement_files [OF ex_box [of True] ex_camb_built [of True], of "[''DM'' \<mapsto> ?go]" "1/20"]
  note t2 = measurement_files [OF ex_box [of False] ex_camb_built [of False], of "[''DM'' \<mapsto> ?go]" "1/20"]
  from t0 have a: "check_ic_power_spectra node_interp (ex_self True) ex_matterpow ex_transfer
      Map.empty (1/20) = Inl AssertionError"
    by simp
  from t1 flags(1) dm [of True]
  have b: "check_ic_power_spectra node_interp (ex_self True) ex_matterpow ex_transfer
      [''DM'' \<mapsto> ?go] (1/20) = Inl AssertionError"
    by simp
  from t2 flags(2) dm [of False]
  have c: "check_ic_power_spectra node_interp (ex_self False) ex_matterpow ex_transfer
      [''DM'' \<mapsto> ?go] (1/20) = Inr ()"
    by simp
  show ?thesis by (intro conjI) (rule a dm b c)+
qed

text \<open>
  A run without \<open>separate_gas\<close> in which a by file exists: the DM spectrum agrees with
  the theory, four samples of the by spectrum are off by a tenth, and the check fails on
  by.
\<close>

theorem baryons_checked_without_separate_gas:
  "check_ic_power_spectra node_interp (ex_self False) ex_matterpow ex_transfer
     [''DM'' \<mapsto> [[4, 1, 1], [5, 1, 1], [6, 1, 1], [7, 1, 1], [10, 1, 1]],
      ''by'' \<mapsto> [[4, 11/10, 1], [5, 11/10, 1], [6, 11/10, 1], [7, 11/10, 1], [10, 1, 1]]] (1/20)
     = Inl (RuntimeError ''by'' (1/10))
   \<and> \<not> separate_gas (ex_self False)"
proof -
  let ?go = "[[4, 1, 1], [5, 1, 1], [6, 1, 1], [7, 1, 1], [10, 1, 1]] :: table"
  let ?bad = "[[4, 11/10, 1], [5, 11/10, 1], [6, 11/10, 1], [7, 11/10, 1], [10, 1, 1]] :: table"
  let ?fs = "[''DM'' \<mapsto> ?go, ''by'' \<mapsto> ?bad]"
  have dm: "check_species (ex_self False) ex_camb ?fs ''DM'' (1/20) = Inr (1/20)"
    by (subst ex_check5 [of ?fs "''DM''" 1 1 1 1 1]) (simp_all add: ex_accuracy)
  have bar: "check_species (ex_self False) ex_camb ?fs ''by'' (1/20) = Inl (RuntimeError ''by'' (1/10))"
    by (subst ex_check5 [of ?fs "''by''" "11/10" "11/10" "11/10" "11/10" 1])
      (simp_all add: ex_accuracy)
  have "check_ic_power_spectra node_interp (ex_self False) ex_matterpow ex_transfer ?fs (1/20)
     = Inl (RuntimeError ''by'' (1/10))"
    unfolding check_ic_power_spectra_loop [OF ex_box ex_camb_built] check_loop_unroll
    by (simp add: dm bar)
  then show ?thesis by (simp add: ex_self_def)
qed

theorem species_checks_independent_witness:
  "check_species (ex_self False) ex_camb
     [''DM'' \<mapsto> [[4, 1, 1], [5, 1, 1], [6, 1, 1], [7, 1, 1], [10, 1, 1]],
      ''by'' \<mapsto> [[4, 11/10, 1], [5, 11/10, 1], [6, 11/10, 1], [7, 11/10, 1], [10, 1, 1]]]
     ''DM'' (1/20)
   = check_species (ex_self False) ex_camb
     [''DM'' \<mapsto> [[4, 1, 1], [5, 1, 1], [6, 1, 1], [7, 1, 1], [10, 1, 1]],
      ''by'' \<mapsto> [[4, 11/10, 1], [5, 1, 1], [6, 1, 1], [7, 1, 1], [10, 1, 1]]]
     ''DM'' (1/20)
   \<and> check_species (ex_self False) ex_camb
     [''DM'' \<mapsto> [[4, 1, 1], [5, 1, 1], [6, 1, 1], [7, 1, 1], [10, 1, 1]],
      ''by'' \<mapsto> [[4, 11/10, 1], [5, 11/10, 1], [6, 11/10, 1], [7, 11/10, 1], [10, 1, 1]]]
     ''DM'' (1/20) = Inr (1/20)
   \<and> check_ic_power_spectra node_interp (ex_self False) ex_matterpow ex_transfer
     [''DM'' \<mapsto> [[4, 1, 1], [5, 1, 1], [6, 1, 1], [7, 1, 1], [10, 1, 1]],
      ''by'' \<mapsto> [[4, 11/10, 1], [5, 1, 1], [6, 1, 1], [7, 1, 1], [10, 1, 1]]] (1/20)
     = Inr ()"
proof -
  let ?go = "[[4, 1, 1], [5, 1, 1], [6, 1, 1], [7, 1, 1], [10, 1, 1]] :: table"
  let ?bad = "[[4, 11/10, 1], [5, 11/10, 1], [6, 11/10, 1], [7, 11/10, 1], [10, 1, 1]] :: table"
  let ?one = "[[4, 11/10, 1], [5, 1, 1], [6, 1, 1], [7, 1, 1], [10, 1, 1]] :: table"
  let ?fs = "[''DM'' \<mapsto> ?go, ''by'' \<mapsto> ?bad]"
  let ?fs' = "[''DM'' \<mapsto> ?go, ''by'' \<mapsto> ?one]"
  note t = species_checks_independent [OF ex_box [of False] ex_camb_built [of False]]
  have agree: "?fs ''DM'' = ?fs' ''DM''" by simp
  from t [of ?fs "''DM''" ?fs'] agree
  have same: "check_species (ex_self False) ex_camb ?fs ''DM'' (1/20)
      = check_species (ex_self False) ex_camb ?fs' ''DM'' (1/20)"
    by blast
  have dm: "check_species (ex_self False) ex_camb ?fs ''DM'' (1/20) = Inr (1/20)"
    by (subst ex_check5 [of ?fs "''DM''" 1 1 1 1 1]) (simp_all add: ex_accuracy)
  have bar: "check_species (ex_self False) ex_camb ?fs' ''by'' (1/20) = Inr (1/20)"
    by (subst ex_check5 [of ?fs' "''by''" "11/10" 1 1 1 1]) (simp_all add: ex_accuracy)
  have nu: "check_species (ex_self False) ex_camb ?fs' ''nu'' (1/20) = Inr (1/20)"
    by (simp add: check_species_absent)
  from same dm have dm': "check_species (ex_self False) ex_camb ?fs' ''DM'' (1/20) = Inr (1/20)"
    by simp
  note eq = t [of ?fs' "''DM''" ?fs' "1/20", THEN conjunct2, THEN conjunct2, THEN conjunct1]
  have run: "check_ic_power_spectra node_interp (ex_self False) ex_matterpow ex_transfer ?fs' (1/20)
     = Inr ()"
    unfolding eq by (simp add: dm' bar nu)
  show ?thesis by (intro conjI) (rule same dm run)+
qed

end
